theory Spec2Isabelle
  imports Main "HOL-Library.AList"
begin

section \<open>The option and compositor specification parsers of holoviews/util/parser.py\<close>

text \<open>
  The module builds two pyparsing grammars and post-processes what they return. The
  grammars themselves belong to the pyparsing library: here their results (the matches
  of \<^verbatim>\<open>scanString\<close>, the groups of \<^verbatim>\<open>parseString\<close>) are inputs of the model,
  and so is Python's \<^verbatim>\<open>eval\<close>. Everything the module itself computes on those
  results is translated function by function, every \<^verbatim>\<open>raise\<close> and every
  failing index or key lookup being a value of the type \<open>error\<close>.
\<close>

subsection \<open>Exceptions and warnings\<close>

text \<open>
  One constructor of \<open>syntax_error\<close> for each \<^verbatim>\<open>raise SyntaxError(...)\<close> of the
  module, carrying the values formatted into its message.
\<close>

datatype syntax_error =
    Invalid_specification_syntax
  | Failed_to_parse_remainder string
  | Normalization_repeated string
  | Normalization_not_one_of "string list"
  | Normalization_both string string
  | Could_not_evaluate_keyword string
  | Mode_must_be_specified
  | Operation_not_available string

datatype error =
    SyntaxError syntax_error
  | IndexError
  | KeyError string
  | TypeError
  | AttributeError
  | ParseException

datatype warning =
    Ignoring_keyword string
  | Element_deprecated string string

subsection \<open>Sequencing of computations that may raise\<close>

definition bind_err :: "error + 'a \<Rightarrow> ('a \<Rightarrow> error + 'b) \<Rightarrow> error + 'b" where
  "bind_err r f = (case r of Inl e \<Rightarrow> Inl e | Inr x \<Rightarrow> f x)"

subsection \<open>Python strings\<close>

text \<open>The characters \<^verbatim>\<open>str.strip()\<close> removes, among the first 256 code points.\<close>

definition isspace :: "char \<Rightarrow> bool" where
  "isspace c \<longleftrightarrow> of_char c \<in> {9, 10, 11, 12, 13, 28, 29, 30, 31, 32, 133, 160 :: nat}"

definition strip :: "string \<Rightarrow> string" where
  "strip s = rev (dropWhile isspace (rev (dropWhile isspace s)))"

definition endswith :: "string \<Rightarrow> string \<Rightarrow> bool" where
  "endswith s suf \<longleftrightarrow> length suf \<le> length s \<and> drop (length s - length suf) s = suf"

text \<open>\<^verbatim>\<open>sep.join(xs)\<close>\<close>

fun join :: "string \<Rightarrow> string list \<Rightarrow> string" where
  "join sep [] = []"
| "join sep [x] = x"
| "join sep (x # y # ys) = x @ sep @ join sep (y # ys)"

text \<open>\<^verbatim>\<open>s.split(sep)\<close> for a separator of one character.\<close>

fun split :: "char \<Rightarrow> string \<Rightarrow> string list" where
  "split sep [] = [[]]"
| "split sep (c # cs) =
     (if c = sep then [] # split sep cs
      else (case split sep cs of
              [] \<Rightarrow> [[c]]
            | w # ws \<Rightarrow> (c # w) # ws))"

text \<open>
  \<^verbatim>\<open>s.replace(old, new)\<close>: the occurrences of \<open>old\<close> are replaced from left to
  right without overlap. With an empty \<open>old\<close> Python puts \<open>new\<close> before every
  character and at the end.
\<close>

function replace :: "string \<Rightarrow> string \<Rightarrow> string \<Rightarrow> string" where
  "replace old new s =
     (if old = [] then new @ concat (map (\<lambda>c. c # new) s)
      else if s = [] then []
      else if take (length old) s = old then new @ replace old new (drop (length old) s)
      else hd s # replace old new (tl s))"
  by pat_completeness auto
termination
  by (relation "measure (\<lambda>(old, new, s). length s)") (auto simp: neq_Nil_conv)

declare replace.simps [simp del]

subsection \<open>Python dictionaries\<close>

text \<open>
  A dictionary is the list of its items in insertion order. Assigning to a key that is
  present keeps its place; a new key goes to the end.
\<close>

type_synonym ('k, 'v) dict = "('k \<times> 'v) list"

definition dict_get :: "('k, 'v) dict \<Rightarrow> 'k \<Rightarrow> 'v option" where
  "dict_get d k = map_of d k"

definition dict_contains :: "'k \<Rightarrow> ('k, 'v) dict \<Rightarrow> bool" where
  "dict_contains k d \<longleftrightarrow> map_of d k \<noteq> None"

definition dict_set :: "('k, 'v) dict \<Rightarrow> 'k \<Rightarrow> 'v \<Rightarrow> ('k, 'v) dict" where
  "dict_set d k v = AList.update k v d"

text \<open>\<^verbatim>\<open>d.update(other)\<close>\<close>

fun dict_update :: "('k, 'v) dict \<Rightarrow> ('k, 'v) dict \<Rightarrow> ('k, 'v) dict" where
  "dict_update d [] = d"
| "dict_update d ((k, v) # rest) = dict_update (dict_set d k v) rest"

text \<open>
  The keys and values of keyword dictionaries. A key is a string, as every keyword name
  is, or some other hashable object: \<^verbatim>\<open>kwargs.update\<close> takes whatever keys the
  evaluated object gives it. Two keys \<open>Key a\<close> and \<open>Key b\<close> are equal exactly when
  Python takes them for the same key. A value is a Boolean of a normalization or any
  other object.
\<close>

datatype 'k pykey = Name string | Key 'k

datatype 'v pyval = PyBool bool | PyObj 'v

text \<open>
  A call \<^verbatim>\<open>f(**d)\<close> raises TypeError unless every key of \<^verbatim>\<open>d\<close> is a string;
  otherwise \<^verbatim>\<open>f\<close> receives the items as keyword arguments.
\<close>

fun keyword_args :: "('k pykey, 'v) dict \<Rightarrow> error + (string, 'v) dict" where
  "keyword_args [] = Inr []"
| "keyword_args ((Name s, v) # rest) = bind_err (keyword_args rest) (\<lambda>kw. Inr ((s, v) # kw))"
| "keyword_args ((Key k, v) # rest) = Inl TypeError"

subsection \<open>Parse results\<close>

text \<open>
  \<^verbatim>\<open>asList()\<close> of a nested expression: strings and, for every inner bracket pair,
  a list of the same.
\<close>

datatype tok = Str string | Lst "tok list"

text \<open>
  A group matched by \<^verbatim>\<open>spec_group\<close>: the path specification and, for each results
  name that is set, the content \<^verbatim>\<open>group[name][0].asList()\<close>.
\<close>

record group =
  pathspec :: string
  norm_options :: "tok list option"
  plot_options :: "tok list option"
  style_options :: "tok list option"

text \<open>
  \<^verbatim>\<open>_group_paths_without_options\<close> yields either a group or, for the trailing
  paths, the empty dictionary \<^verbatim>\<open>{}\<close>, which is \<open>None\<close> here.
\<close>

definition norm_of :: "group option \<Rightarrow> tok list option" where
  "norm_of g = (case g of None \<Rightarrow> None | Some gr \<Rightarrow> norm_options gr)"

definition plot_of :: "group option \<Rightarrow> tok list option" where
  "plot_of g = (case g of None \<Rightarrow> None | Some gr \<Rightarrow> plot_options gr)"

definition style_of :: "group option \<Rightarrow> tok list option" where
  "style_of g = (case g of None \<Rightarrow> None | Some gr \<Rightarrow> style_options gr)"

subsection \<open>OptsSpec.process_normalization\<close>

definition options :: "string list" where
  "options = [''+framewise'', ''-framewise'', ''+axiswise'', ''-axiswise'']"

definition excluded :: "(string \<times> string) list" where
  "excluded = [(''+framewise'', ''-framewise''), (''+axiswise'', ''-axiswise'')]"

text \<open>The loop \<^verbatim>\<open>for normopt in options: if opts.count(normopt) > 1: raise\<close>.\<close>

fun check_repeated :: "tok list \<Rightarrow> string list \<Rightarrow> error + unit" where
  "check_repeated opts [] = Inr ()"
| "check_repeated opts (normopt # rest) =
     (if count_list opts (Str normopt) > 1
      then Inl (SyntaxError (Normalization_repeated normopt))
      else check_repeated opts rest)"

text \<open>The loop \<^verbatim>\<open>for pair in excluded: if all(exclude in opts ...): raise\<close>.\<close>

fun check_excluded :: "tok list \<Rightarrow> (string \<times> string) list \<Rightarrow> error + unit" where
  "check_excluded opts [] = Inr ()"
| "check_excluded opts ((p0, p1) # rest) =
     (if Str p0 \<in> set opts \<and> Str p1 \<in> set opts
      then Inl (SyntaxError (Normalization_both p0 p1))
      else check_excluded opts rest)"

text \<open>\<^verbatim>\<open>opts[0].endswith(suf)\<close>: a nested list has no such method.\<close>

fun tok_endswith :: "tok \<Rightarrow> string \<Rightarrow> error + bool" where
  "tok_endswith (Str s) suf = Inr (endswith s suf)"
| "tok_endswith (Lst ts) suf = Inl AttributeError"

text \<open>\<^verbatim>\<open>dict(axiswise=axiswise, framewise=framewise)\<close>\<close>

definition norm_dict :: "bool \<Rightarrow> bool \<Rightarrow> (string, bool) dict" where
  "norm_dict axiswise framewise = [(''axiswise'', axiswise), (''framewise'', framewise)]"

definition process_normalization :: "group option \<Rightarrow> error + (string, bool) dict option" where
  "process_normalization parse_group =
     (case norm_of parse_group of
        None \<Rightarrow> Inr None
      | Some opts \<Rightarrow>
          if opts = [] then Inr None
          else (case check_repeated opts options of
            Inl e \<Rightarrow> Inl e
          | Inr u \<Rightarrow>
              if \<not> list_all (\<lambda>opt. opt \<in> set (map Str options)) opts
              then Inl (SyntaxError (Normalization_not_one_of options))
              else (case check_excluded opts excluded of
                Inl e \<Rightarrow> Inl e
              | Inr u \<Rightarrow>
                  (case (if length opts = 1 then tok_endswith (hd opts) ''framewise''
                         else Inr False) of
                     Inl e \<Rightarrow> Inl e
                   | Inr True \<Rightarrow>
                       Inr (Some (norm_dict False (Str ''+framewise'' \<in> set opts)))
                   | Inr False \<Rightarrow>
                       (case (if length opts = 1 then tok_endswith (hd opts) ''axiswise''
                              else Inr False) of
                          Inl e \<Rightarrow> Inl e
                        | Inr True \<Rightarrow>
                            Inr (Some (norm_dict (Str ''+axiswise'' \<in> set opts) False))
                        | Inr False \<Rightarrow>
                            Inr (Some (norm_dict (Str ''+axiswise'' \<in> set opts)
                                                 (Str ''+framewise'' \<in> set opts))))))))"

subsection \<open>Parser: collecting tokens\<close>

text \<open>
  \<^verbatim>\<open>kw[-1]\<close> and \<^verbatim>\<open>kw[0]\<close> raise IndexError on the empty string, which the
  first slice can produce from \<^verbatim>\<open>','\<close>.
\<close>

definition strip_commas :: "string \<Rightarrow> error + string" where
  "strip_commas kw =
     (if kw = [] then Inl IndexError
      else let kw1 = (if last kw = CHR '','' then butlast kw else kw)
           in if kw1 = [] then Inl IndexError
              else Inr (if hd kw1 = CHR '','' then tl kw1 else kw1))"

text \<open>
  The format string \<^verbatim>\<open>inner\<close> is kept as its two delimiters; \<open>fmt inner s\<close> is
  \<^verbatim>\<open>inner % s\<close>.
\<close>

definition inner_of :: "string \<Rightarrow> string \<times> string" where
  "inner_of mode = (if mode = ''parens'' then (''('', '')'') else (''['', '']''))"

definition fmt :: "string \<times> string \<Rightarrow> string \<Rightarrow> string" where
  "fmt inner s = fst inner @ s @ snd inner"

text \<open>
  \<^verbatim>\<open>recurse_token\<close>. The comprehension that builds \<^verbatim>\<open>new_tok\<close> iterates over the
  characters of the string a recursive call returns and \<^verbatim>\<open>''.join\<close> puts them
  together again, so \<^verbatim>\<open>''.join(new_tok)\<close> is the concatenation written here.
\<close>

fun recurse_token :: "tok list \<Rightarrow> string \<times> string \<Rightarrow> string" where
  "recurse_token token inner =
     fmt inner (concat (map (\<lambda>tok.
       (case tok of
          Lst ts \<Rightarrow>
            fmt inner (concat (map (\<lambda>t.
              (case t of Lst us \<Rightarrow> recurse_token us inner | Str s \<Rightarrow> s)) ts))
        | Str s \<Rightarrow> s)) token))"

declare recurse_token.simps [simp del]

text \<open>The loop of \<^verbatim>\<open>collect_tokens\<close>, with the list \<^verbatim>\<open>tokens\<close> built so far.\<close>

fun collect_loop :: "string \<times> string \<Rightarrow> string list \<Rightarrow> tok list \<Rightarrow> error + string list" where
  "collect_loop inner tokens [] = Inr tokens"
| "collect_loop inner tokens (Lst ts # rest) =
     (if tokens = [] then Inl IndexError
      else collect_loop inner (butlast tokens @ [last tokens @ recurse_token ts inner]) rest)"
| "collect_loop inner tokens (Str s # rest) =
     (if strip s = '','' then collect_loop inner tokens rest
      else bind_err (strip_commas s) (\<lambda>kw. collect_loop inner (tokens @ [kw]) rest))"

definition collect_tokens :: "tok list option \<Rightarrow> string \<Rightarrow> error + string list" where
  "collect_tokens parseresult mode =
     (case parseresult of
        None \<Rightarrow> Inr []
      | Some toks \<Rightarrow> collect_loop (inner_of mode) [] toks)"

subsection \<open>Parser.todict\<close>

text \<open>\<^verbatim>\<open>itertools.groupby\<close>: the maximal runs of consecutive elements with equal key.\<close>

function groupby :: "('a \<Rightarrow> 'k) \<Rightarrow> 'a list \<Rightarrow> ('k \<times> 'a list) list" where
  "groupby key [] = []"
| "groupby key (x # xs) =
     (key x, x # takeWhile (\<lambda>y. key y = key x) xs)
       # groupby key (dropWhile (\<lambda>y. key y = key x) xs)"
  by pat_completeness auto
termination
  by (relation "measure (\<lambda>(key, xs). length xs)")
     (auto simp: less_Suc_eq_le length_dropWhile_le)

text \<open>The first loop of \<^verbatim>\<open>todict\<close>; \<^verbatim>\<open>grouped[-1]\<close> raises on the empty list.\<close>

definition joiner_of :: "string list \<Rightarrow> string" where
  "joiner_of elements =
     (if list_ex (\<lambda>el. CHR '')'' \<in> set el \<or> CHR ''}'' \<in> set el) elements then '','' else [])"

fun group_loop :: "string list \<Rightarrow> (bool \<times> string list) list \<Rightarrow> error + string list" where
  "group_loop grouped [] = Inr grouped"
| "group_loop grouped ((val, items) # rest) =
     (if val then group_loop (grouped @ items) rest
      else let joiner = joiner_of items
           in if grouped = [] then Inl IndexError
              else group_loop
                     (butlast grouped @ [last grouped @ joiner @ join joiner items]) rest)"

definition group_tokens :: "string list \<Rightarrow> error + string list" where
  "group_tokens tokens = group_loop [] (groupby (\<lambda>el. CHR ''='' \<in> set el) tokens)"

text \<open>The substitutions applied to every keyword, in the order of the source.\<close>

definition fixups :: "(string \<times> string) list" where
  "fixups = [(''(,'', ''(''), (''{,'', ''{''), (''=,'', ''=''),
             ('',:'', '':''), ('':,'', '':''), ('',,'', '',''),
             ('',.'', ''.'')]"

definition repair :: "string \<Rightarrow> string" where
  "repair keyword = foldl (\<lambda>kw (fst, snd). replace fst snd kw) keyword fixups"

text \<open>
  What the statement \<^verbatim>\<open>kwargs.update(eval(...))\<close> inside the \<^verbatim>\<open>try\<close> block does
  for one expression. \<open>Raises\<close>: \<^verbatim>\<open>eval\<close> raises. \<open>Updates pairs completed\<close>:
  \<^verbatim>\<open>eval\<close> returns an object, and \<^verbatim>\<open>kwargs.update\<close> stores \<open>pairs\<close> in this
  order and then returns (\<open>completed\<close>) or raises. For a dictionary the pairs are its
  items and the update completes. Any other object is read as a sequence of pairs:
  the pairs before the first element that is not a pair are stored, then the update
  raises, the pairs staying in \<^verbatim>\<open>kwargs\<close>.
\<close>

datatype ('k, 'v) evaluated = Raises | Updates "('k pykey \<times> 'v pyval) list" bool

text \<open>
  The second loop. \<open>ev\<close> stands for \<^verbatim>\<open>eval\<close> in the namespace
  \<^verbatim>\<open>dict(cls.namespace, **ns)\<close>, followed by the update. \<open>abort\<close> is the class
  attribute \<^verbatim>\<open>abort_on_eval_failure\<close>. The warnings emitted are returned with the
  result.
\<close>

fun eval_loop ::
  "bool \<Rightarrow> (string \<Rightarrow> ('k, 'v) evaluated) \<Rightarrow> ('k pykey, 'v pyval) dict \<Rightarrow> warning list
     \<Rightarrow> string list \<Rightarrow> error + (('k pykey, 'v pyval) dict \<times> warning list)" where
  "eval_loop abort ev kwargs ws [] = Inr (kwargs, ws)"
| "eval_loop abort ev kwargs ws (keyword0 # rest) =
     (let keyword = repair keyword0
      in case ev (''dict('' @ keyword @ '')'') of
           Updates pairs True \<Rightarrow> eval_loop abort ev (dict_update kwargs pairs) ws rest
         | Updates pairs False \<Rightarrow>
             if abort then Inl (SyntaxError (Could_not_evaluate_keyword keyword))
             else eval_loop abort ev (dict_update kwargs pairs)
                    (ws @ [Ignoring_keyword keyword]) rest
         | Raises \<Rightarrow>
             if abort then Inl (SyntaxError (Could_not_evaluate_keyword keyword))
             else eval_loop abort ev kwargs (ws @ [Ignoring_keyword keyword]) rest)"

definition todict ::
  "bool \<Rightarrow> (string \<Rightarrow> ('k, 'v) evaluated) \<Rightarrow> tok list option \<Rightarrow> string
     \<Rightarrow> error + (('k pykey, 'v pyval) dict \<times> warning list)" where
  "todict abort ev parseresult mode =
     bind_err (collect_tokens parseresult mode) (\<lambda>tokens.
     bind_err (group_tokens tokens) (\<lambda>grouped.
     eval_loop abort ev [] [] grouped))"

subsection \<open>OptsSpec: grouping paths, merging options, deprecations\<close>

definition aliases :: "(string, string) dict" where
  "aliases = [(''horizontal_spacing'', ''hspace''),
              (''vertical_spacing'', ''vspace''),
              (''figure_alpha'', ''    fig_alpha''),
              (''figure_bounds'', ''fig_bounds''),
              (''figure_inches'', ''fig_inches''),
              (''figure_latex'', ''fig_latex''),
              (''figure_rcparams'', ''fig_rcparams''),
              (''figure_size'', ''fig_size''),
              (''show_xaxis'', ''xaxis''),
              (''show_yaxis'', ''yaxis'')]"

definition deprecations :: "(string \<times> string) list" where
  "deprecations = [(''GridImage'', ''Image'')]"

text \<open>
  A Python set of path specifications is the list of its elements, each once, in the
  order they were added. Python iterates a set in an order of its own; nothing proved
  below depends on the order chosen here.
\<close>

definition set_add :: "'a \<Rightarrow> 'a list \<Rightarrow> 'a list" where
  "set_add x xs = (if x \<in> set xs then xs else xs @ [x])"

definition has_options :: "group \<Rightarrow> bool" where
  "has_options g \<longleftrightarrow>
     norm_options g \<noteq> None \<or> plot_options g \<noteq> None \<or> style_options g \<noteq> None"

text \<open>The generator \<^verbatim>\<open>_group_paths_without_options\<close>, as the list of what it yields.\<close>

fun group_paths :: "string list \<Rightarrow> group list \<Rightarrow> (string list \<times> group option) list" where
  "group_paths active_pathspecs [] =
     (if active_pathspecs \<noteq> [] then [(active_pathspecs, None)] else [])"
| "group_paths active_pathspecs (g # rest) =
     (let active = set_add (pathspec g) active_pathspecs
      in if has_options g then (active, Some g) # group_paths [] rest
         else group_paths active rest)"

definition group_paths_without_options :: "group list \<Rightarrow> (string list \<times> group option) list" where
  "group_paths_without_options line_parse_result = group_paths [] line_parse_result"

text \<open>
  \<^verbatim>\<open>_merge_options\<close>. \<^verbatim>\<open>merged = dict(old_opts)\<close> copies the outer dictionary
  only, so \<^verbatim>\<open>merged[option_type].update(options)\<close> also changes the inner
  dictionary \<^verbatim>\<open>old_opts\<close> holds; the model gives the dictionary returned.
\<close>

definition merge_step ::
  "('c, ('k, 'v) dict) dict \<Rightarrow> 'c \<Rightarrow> ('k, 'v) dict \<Rightarrow> ('c, ('k, 'v) dict) dict" where
  "merge_step merged option_type opts =
     (let merged1 = (if \<not> dict_contains option_type merged
                     then dict_set merged option_type [] else merged)
      in case dict_get merged1 option_type of
           None \<Rightarrow> merged1
         | Some inner \<Rightarrow> dict_set merged1 option_type (dict_update inner opts))"

fun merge_loop ::
  "('c, ('k, 'v) dict) dict \<Rightarrow> ('c, ('k, 'v) dict) dict \<Rightarrow> ('c, ('k, 'v) dict) dict" where
  "merge_loop merged [] = merged"
| "merge_loop merged ((option_type, opts) # rest) =
     merge_loop (merge_step merged option_type opts) rest"

definition merge_options ::
  "('c, ('k, 'v) dict) dict \<Rightarrow> ('c, ('k, 'v) dict) dict \<Rightarrow> ('c, ('k, 'v) dict) dict" where
  "merge_options old_opts new_opts = merge_loop old_opts new_opts"

fun deprecation_loop ::
  "string \<Rightarrow> string list \<Rightarrow> (string \<times> string) list \<Rightarrow> string \<times> warning list" where
  "deprecation_loop path sp [] = (path, [])"
| "deprecation_loop path sp ((old, new) # rest) =
     (if hd sp = old then (join ''.'' (new # tl sp), [Element_deprecated old new])
      else deprecation_loop path sp rest)"

definition apply_deprecations :: "string \<Rightarrow> string \<times> warning list" where
  "apply_deprecations path = deprecation_loop path (split CHR ''.'' path) deprecations"

subsection \<open>OptsSpec.parse\<close>

text \<open>
  The test both \<^verbatim>\<open>parse\<close> methods make on the matches of \<^verbatim>\<open>scanString\<close>,
  each a triple of the tokens, the start and the end of the match.
\<close>

definition check_scan :: "string \<Rightarrow> ('r \<times> nat \<times> nat) list \<Rightarrow> error + unit" where
  "check_scan line parses =
     (if length parses \<noteq> 1 then Inl (SyntaxError Invalid_specification_syntax)
      else let e = snd (snd (hd parses));
               processed = take e line
           in if strip processed \<noteq> strip line
              then Inl (SyntaxError (Failed_to_parse_remainder (drop e line)))
              else Inr ())"

text \<open>\<^verbatim>\<open>{cls.aliases.get(k,k): v for k,v in opts.items()}\<close>\<close>

definition alias_of :: "'k pykey \<Rightarrow> 'k pykey" where
  "alias_of k =
     (case k of
        Name s \<Rightarrow> (case dict_get aliases s of None \<Rightarrow> Name s | Some a \<Rightarrow> Name a)
      | Key x \<Rightarrow> Key x)"

definition alias_keys :: "('k pykey, 'v) dict \<Rightarrow> ('k pykey, 'v) dict" where
  "alias_keys opts = foldl (\<lambda>d (k, v). dict_set d (alias_of k) v) [] opts"

text \<open>The options of one yielded group: the first half of the loop body of \<^verbatim>\<open>parse\<close>.\<close>

definition group_options ::
  "bool \<Rightarrow> (string \<Rightarrow> ('k, 'v) evaluated) \<Rightarrow> group option
     \<Rightarrow> error + ((string, ('k pykey, 'v pyval) dict) dict \<times> warning list)" where
  "group_options abort ev g =
     bind_err (process_normalization g) (\<lambda>normalization.
     let options0 = (case normalization of
                       None \<Rightarrow> []
                     | Some n \<Rightarrow> dict_set [] ''norm'' (map (\<lambda>(k, b). (Name k, PyBool b)) n))
     in bind_err
          (case plot_of g of
             None \<Rightarrow> Inr (options0, [])
           | Some plotopts \<Rightarrow>
               bind_err (todict abort ev (Some plotopts) ''brackets'') (\<lambda>(opts, ws).
               Inr (dict_set options0 ''plot'' (alias_keys opts), ws)))
          (\<lambda>(options1, ws1).
             case style_of g of
               None \<Rightarrow> Inr (options1, ws1)
             | Some styleopts \<Rightarrow>
                 bind_err (todict abort ev (Some styleopts) ''parens'') (\<lambda>(opts, ws).
                 Inr (dict_set options1 ''style'' (alias_keys opts), ws1 @ ws))))"

text \<open>\<^verbatim>\<open>for pathspec in pathspecs: parse[pathspec] = cls._merge_options(...)\<close>\<close>

fun assign_paths ::
  "(string, ('c, ('k, 'v) dict) dict) dict \<Rightarrow> string list \<Rightarrow> ('c, ('k, 'v) dict) dict
     \<Rightarrow> (string, ('c, ('k, 'v) dict) dict) dict" where
  "assign_paths parse [] opts = parse"
| "assign_paths parse (p # ps) opts =
     assign_paths
       (dict_set parse p
          (merge_options (case dict_get parse p of None \<Rightarrow> [] | Some old \<Rightarrow> old) opts))
       ps opts"

fun parse_loop ::
  "bool \<Rightarrow> (string \<Rightarrow> ('k, 'v) evaluated)
     \<Rightarrow> (string, (string, ('k pykey, 'v pyval) dict) dict) dict \<Rightarrow> warning list
     \<Rightarrow> (string list \<times> group option) list
     \<Rightarrow> error + ((string, (string, ('k pykey, 'v pyval) dict) dict) dict \<times> warning list)" where
  "parse_loop abort ev parse ws [] = Inr (parse, ws)"
| "parse_loop abort ev parse ws ((pathspecs, g) # rest) =
     bind_err (group_options abort ev g) (\<lambda>(opts, ws1).
     parse_loop abort ev (assign_paths parse pathspecs opts) (ws @ ws1) rest)"

text \<open>
  \<^verbatim>\<open>Options\<close> is a class of another module; an instance is known here by the keyword
  arguments it was made from.
\<close>

datatype 'v Options = Options "(string, 'v pyval) dict"

text \<open>
  The inner comprehension
  \<^verbatim>\<open>{option_type: Options(**option_pairs) for option_type, option_pairs in options.items()}\<close>.
\<close>

fun wrap_loop ::
  "(string, 'v Options) dict \<Rightarrow> (string, ('k pykey, 'v pyval) dict) dict
     \<Rightarrow> error + (string, 'v Options) dict" where
  "wrap_loop d [] = Inr d"
| "wrap_loop d ((option_type, option_pairs) # rest) =
     bind_err (keyword_args option_pairs) (\<lambda>kw.
     wrap_loop (dict_set d option_type (Options kw)) rest)"

definition wrap_options ::
  "(string, ('k pykey, 'v pyval) dict) dict \<Rightarrow> error + (string, 'v Options) dict" where
  "wrap_options opts = wrap_loop [] opts"

text \<open>The dictionary comprehension that \<^verbatim>\<open>parse\<close> returns.\<close>

fun finalize ::
  "(string, (string, 'v Options) dict) dict \<Rightarrow> warning list
     \<Rightarrow> (string, (string, ('k pykey, 'v pyval) dict) dict) dict
     \<Rightarrow> error + ((string, (string, 'v Options) dict) dict \<times> warning list)" where
  "finalize out ws [] = Inr (out, ws)"
| "finalize out ws ((path, opts) # rest) =
     (case apply_deprecations path of
        (path1, ws1) \<Rightarrow>
          bind_err (wrap_options opts) (\<lambda>wrapped.
          finalize (dict_set out path1 wrapped) (ws @ ws1) rest))"

text \<open>
  \<open>scanString\<close> and \<open>parseString\<close> are the two methods of the grammar
  \<^verbatim>\<open>opts_spec\<close>; the second raises when the grammar does not match at the start of
  the line.
\<close>

definition OptsSpec_parse ::
  "(string \<Rightarrow> ('r \<times> nat \<times> nat) list) \<Rightarrow> (string \<Rightarrow> error + group list)
     \<Rightarrow> bool \<Rightarrow> (string \<Rightarrow> ('k, 'v) evaluated) \<Rightarrow> string
     \<Rightarrow> error + ((string, (string, 'v Options) dict) dict \<times> warning list)" where
  "OptsSpec_parse scanString parseString abort ev line =
     bind_err (check_scan line (scanString line)) (\<lambda>u.
     bind_err (parseString line) (\<lambda>groups.
     bind_err (parse_loop abort ev [] [] (group_paths_without_options groups)) (\<lambda>(parse, ws).
     finalize [] ws parse)))"

subsection \<open>CompositorSpec.parse\<close>

text \<open>
  A group matched by \<^verbatim>\<open>compositor_spec\<close>: \<open>g_spec\<close> is
  \<^verbatim>\<open>group['spec'].asList()[0]\<close> and \<open>g_op_settings\<close> is
  \<^verbatim>\<open>group['op_settings'][0].asList()\<close> when that name is set.
\<close>

record cgroup =
  g_mode :: "string option"
  g_op :: string
  g_spec :: "tok list"
  g_value :: string
  g_op_settings :: "tok list option"

text \<open>
  \<^verbatim>\<open>Compositor\<close> is a class of another module; an instance is known here by the
  arguments of its constructor, in their order, the last being the keyword arguments.
\<close>

record ('o, 'v) compositor =
  c_spec :: string
  c_operation :: 'o
  c_value :: string
  c_mode :: string
  c_kwargs :: "(string, 'v pyval) dict"

text \<open>\<^verbatim>\<open>' '.join(xs)\<close> raises TypeError when an item is not a string.\<close>

fun strings_of :: "tok list \<Rightarrow> error + string list" where
  "strings_of [] = Inr []"
| "strings_of (Str s # rest) = bind_err (strings_of rest) (\<lambda>ss. Inr (s # ss))"
| "strings_of (Lst ts # rest) = Inl TypeError"

text \<open>The loop over the groups; \<open>opmap\<close> maps the name of every registered operation
  to the operation.\<close>

fun compositor_loop ::
  "(string, 'o) dict \<Rightarrow> bool \<Rightarrow> (string \<Rightarrow> ('k, 'v) evaluated)
     \<Rightarrow> ('o, 'v) compositor list \<Rightarrow> warning list \<Rightarrow> cgroup list
     \<Rightarrow> error + (('o, 'v) compositor list \<times> warning list)" where
  "compositor_loop opmap abort ev definitions ws [] = Inr (definitions, ws)"
| "compositor_loop opmap abort ev definitions ws (g # rest) =
     (case g_mode g of
        None \<Rightarrow> Inl (SyntaxError Mode_must_be_specified)
      | Some mode \<Rightarrow>
          if mode \<notin> set [''data'', ''display'']
          then Inl (SyntaxError Mode_must_be_specified)
          else (case dict_get opmap (g_op g) of
            None \<Rightarrow> Inl (KeyError (g_op g))
          | Some operation \<Rightarrow>
              bind_err (strings_of (g_spec g)) (\<lambda>ss.
              let spec = join '' '' ss
              in if \<not> dict_contains (g_op g) opmap
                 then Inl (SyntaxError (Operation_not_available (g_op g)))
                 else bind_err
                        (case g_op_settings g of
                           None \<Rightarrow> Inr ([], [])
                         | Some settings \<Rightarrow> todict abort ev (Some settings) ''brackets'')
                        (\<lambda>(kwargs, ws1).
                           bind_err (keyword_args kwargs) (\<lambda>kw.
                           compositor_loop opmap abort ev
                             (definitions @
                                [\<lparr>c_spec = spec, c_operation = operation,
                                  c_value = g_value g, c_mode = mode, c_kwargs = kw\<rparr>])
                             (ws @ ws1) rest)))))"

definition CompositorSpec_parse ::
  "(string \<Rightarrow> ('r \<times> nat \<times> nat) list) \<Rightarrow> (string \<Rightarrow> error + cgroup list)
     \<Rightarrow> (string, 'o) dict \<Rightarrow> bool \<Rightarrow> (string \<Rightarrow> ('k, 'v) evaluated) \<Rightarrow> string
     \<Rightarrow> error + (('o, 'v) compositor list \<times> warning list)" where
  "CompositorSpec_parse scanString parseString opmap abort ev line =
     bind_err (check_scan line (scanString line)) (\<lambda>u.
     bind_err (parseString line) (\<lambda>groups.
     compositor_loop opmap abort ev [] [] groups))"

subsection \<open>Predicates used to state the properties\<close>

text \<open>
  A valid normalization token list: no flag twice, only the four flags, and not both
  signs of one flag.
\<close>

definition valid_opts :: "tok list \<Rightarrow> bool" where
  "valid_opts opts \<longleftrightarrow>
     (\<forall>n\<in>set options. count_list opts (Str n) \<le> 1) \<and>
     (\<forall>t\<in>set opts. t \<in> Str ` set options) \<and>
     \<not> (Str ''+framewise'' \<in> set opts \<and> Str ''-framewise'' \<in> set opts) \<and>
     \<not> (Str ''+axiswise'' \<in> set opts \<and> Str ''-axiswise'' \<in> set opts)"

text \<open>
  The criterion in the words of the specification of \<^verbatim>\<open>todict\<close>: reading the
  tokens of a run from left to right, some closing bracket \<^verbatim>\<open>)\<close> or \<^verbatim>\<open>}\<close> has
  no opening bracket of its kind before it that is still open.
\<close>

fun unmatched_closer :: "nat \<Rightarrow> nat \<Rightarrow> string \<Rightarrow> bool" where
  "unmatched_closer p b [] = False"
| "unmatched_closer p b (c # cs) =
     (if c = CHR ''('' then unmatched_closer (Suc p) b cs
      else if c = CHR ''{'' then unmatched_closer p (Suc b) cs
      else if c = CHR '')'' then (p = 0 \<or> unmatched_closer (p - 1) b cs)
      else if c = CHR ''}'' then (b = 0 \<or> unmatched_closer p (b - 1) cs)
      else unmatched_closer p b cs)"

definition spec_has_unmatched_closer :: "string list \<Rightarrow> bool" where
  "spec_has_unmatched_closer run = unmatched_closer 0 0 (concat run)"

text \<open>
  A well-formed dictionary of option dictionaries: every key of the outer dictionary and
  of each inner dictionary occurs once, as in any Python dictionary.
\<close>

definition wf_opts :: "('c, ('k, 'v) dict) dict \<Rightarrow> bool" where
  "wf_opts d \<longleftrightarrow> distinct (map fst d) \<and> (\<forall>(c, n)\<in>set d. distinct (map fst n))"

text \<open>
  For a keyword of \<^verbatim>\<open>grouped\<close>: the pairs its evaluation stores in \<^verbatim>\<open>kwargs\<close>, and
  whether the \<^verbatim>\<open>except\<close> branch is taken for it.
\<close>

definition pairs_stored ::
  "(string \<Rightarrow> ('k, 'v) evaluated) \<Rightarrow> string \<Rightarrow> ('k pykey \<times> 'v pyval) list" where
  "pairs_stored ev keyword =
     (case ev (''dict('' @ repair keyword @ '')'') of
        Raises \<Rightarrow> []
      | Updates pairs completed \<Rightarrow> pairs)"

definition fails :: "(string \<Rightarrow> ('k, 'v) evaluated) \<Rightarrow> string \<Rightarrow> bool" where
  "fails ev keyword \<longleftrightarrow>
     (case ev (''dict('' @ repair keyword @ '')'') of
        Raises \<Rightarrow> True
      | Updates pairs completed \<Rightarrow> \<not> completed)"

text \<open>The value an options dictionary gives to option \<open>k\<close> of category \<open>c\<close>.\<close>

definition option_value :: "('c, ('k, 'v) dict) dict \<Rightarrow> 'c \<Rightarrow> 'k \<Rightarrow> 'v option" where
  "option_value opts c k = (case dict_get opts c of None \<Rightarrow> None | Some n \<Rightarrow> dict_get n k)"

text \<open>
  The same in what \<^verbatim>\<open>parse\<close> returns for a path: the keyword argument \<open>k\<close> of the
  \<^verbatim>\<open>Options\<close> object of category \<open>c\<close>.
\<close>

definition options_value :: "(string, 'v Options) dict \<Rightarrow> string \<Rightarrow> string \<Rightarrow> 'v pyval option" where
  "options_value od c k =
     (case dict_get od c of None \<Rightarrow> None | Some (Options kw) \<Rightarrow> dict_get kw k)"

text \<open>
  The merge rule in the words of the specification, for the options dictionaries given
  to one path from left to right: a later dictionary overwrites the value of a key of
  the same category and name, and the values of other keys survive.
\<close>

fun spec_merged_value :: "('c, ('k, 'v) dict) dict list \<Rightarrow> 'c \<Rightarrow> 'k \<Rightarrow> 'v option" where
  "spec_merged_value [] c k = None"
| "spec_merged_value (opts # later) c k =
     (case spec_merged_value later c k of
        Some v \<Rightarrow> Some v
      | None \<Rightarrow> option_value opts c k)"

text \<open>
  The options dictionaries a line gives to the path \<open>p\<close>: those of the yielded pairs
  whose set of paths holds \<open>p\<close>, in the order of the line.
\<close>

definition options_given ::
  "bool \<Rightarrow> (string \<Rightarrow> ('k, 'v) evaluated) \<Rightarrow> string \<Rightarrow> (string list \<times> group option) list
     \<Rightarrow> (string, ('k pykey, 'v pyval) dict) dict list" where
  "options_given abort ev p yielded =
     concat (map (\<lambda>(ps, g).
       if p \<in> set ps
       then (case group_options abort ev g of Inr (opts, ws) \<Rightarrow> [opts] | Inl e \<Rightarrow> [])
       else []) yielded)"


section \<open>Properties\<close>

subsection \<open>Normalization\<close>

lemma check_repeated_Inr:
  "check_repeated opts ns = Inr u \<longleftrightarrow> (\<forall>n\<in>set ns. count_list opts (Str n) \<le> 1)"
  by (induction ns) auto

lemma check_repeated_Inl:
  "check_repeated opts ns = Inl e \<Longrightarrow>
     \<exists>n\<in>set ns. e = SyntaxError (Normalization_repeated n) \<and> 1 < count_list opts (Str n)"
  by (induction ns) (auto split: if_splits)

lemma check_excluded_Inr:
  "check_excluded opts ps = Inr () \<longleftrightarrow>
     (\<forall>(a, b)\<in>set ps. \<not> (Str a \<in> set opts \<and> Str b \<in> set opts))"
  by (induction ps) (auto split: if_splits)

lemma check_excluded_Inl:
  "check_excluded opts ps = Inl e \<Longrightarrow>
     \<exists>(a, b)\<in>set ps. e = SyntaxError (Normalization_both a b) \<and> Str a \<in> set opts \<and> Str b \<in> set opts"
  by (induction ps) (auto split: if_splits)

lemma endswith_eval:
  "endswith ''+framewise'' ''framewise''" "endswith ''-framewise'' ''framewise''"
  "\<not> endswith ''+axiswise'' ''framewise''" "\<not> endswith ''-axiswise'' ''framewise''"
  "endswith ''+axiswise'' ''axiswise''" "endswith ''-axiswise'' ''axiswise''"
  by (simp_all add: endswith_def)

lemma pn_valid:
  assumes "norm_of pg = Some opts" "opts \<noteq> []" "valid_opts opts"
  shows "process_normalization pg =
           Inr (Some (norm_dict (Str ''+axiswise'' \<in> set opts) (Str ''+framewise'' \<in> set opts)))"
proof -
  have rep: "check_repeated opts options = Inr ()"
    using assms(3) by (simp add: check_repeated_Inr valid_opts_def)
  have exc: "check_excluded opts excluded = Inr ()"
    using assms(3) by (simp add: check_excluded_Inr valid_opts_def excluded_def)
  have mem: "list_all (\<lambda>opt. opt \<in> set (map Str options)) opts"
    using assms(3) by (auto simp: valid_opts_def list_all_iff)
  show ?thesis
  proof (cases "length opts = 1")
    case False
    then show ?thesis
      using assms(1,2) rep exc mem by (simp add: process_normalization_def)
  next
    case True
    then obtain t where t: "opts = [t]" by (cases opts) auto
    with mem have "t \<in> Str ` set options" by simp
    then consider "t = Str ''+framewise''" | "t = Str ''-framewise''"
      | "t = Str ''+axiswise''" | "t = Str ''-axiswise''"
      by (auto simp: options_def)
    then show ?thesis
      using assms(1) rep exc mem t
      by cases (simp_all add: process_normalization_def endswith_eval)
  qed
qed


lemma pn_invalid:
  assumes "norm_of pg = Some opts" "\<not> valid_opts opts"
  shows "\<exists>se. process_normalization pg = Inl (SyntaxError se)"
proof -
  from assms(2) have ne: "opts \<noteq> []"
    by (auto simp: valid_opts_def)
  show ?thesis
  proof (cases "check_repeated opts options")
    case (Inl e)
    then show ?thesis
      using assms(1) ne check_repeated_Inl [OF Inl]
      by (auto simp: process_normalization_def)
  next
    case (Inr u)
    note rep = this
    show ?thesis
    proof (cases "list_all (\<lambda>opt. opt \<in> set (map Str options)) opts")
      case False
      then show ?thesis
        using assms(1) ne rep by (simp add: process_normalization_def)
    next
      case True
      note mem = this
      from rep have "\<forall>n\<in>set options. count_list opts (Str n) \<le> 1"
        by (simp add: check_repeated_Inr)
      with mem assms(2) have "check_excluded opts excluded \<noteq> Inr ()"
        by (auto simp: valid_opts_def check_excluded_Inr excluded_def list_all_iff)
      then obtain e where e: "check_excluded opts excluded = Inl e"
        by (cases "check_excluded opts excluded") auto
      from check_excluded_Inl [OF e] obtain a b where "e = SyntaxError (Normalization_both a b)"
        by auto
      then show ?thesis
        using assms(1) ne rep mem e by (simp add: process_normalization_def)
    qed
  qed
qed

lemma group_options_norm:
  assumes "group_options abort ev pg = Inr (opts, ws)" "process_normalization pg = Inr n"
  shows "dict_get opts ''norm'' = map_option (map (\<lambda>(k, b). (Name k, PyBool b))) n"
  using assms unfolding group_options_def bind_err_def dict_get_def dict_set_def
  by (auto split: option.splits sum.splits prod.splits simp: update_conv' Let_def)

text \<open>
  Claim C5. When a normalization block is present, \<^verbatim>\<open>process_normalization\<close>
  raises a syntax error exactly when the token list holds one of the four flags more
  than once, or a token that is not one of the four flags, or both signs of
  \<^verbatim>\<open>framewise\<close>, or both signs of \<^verbatim>\<open>axiswise\<close>. It raises nothing but syntax
  errors, and \<^verbatim>\<open>+axiswise +framewise\<close> is accepted with both flags true.
\<close>

theorem process_normalization_raises_iff:
  assumes "norm_of pg = Some opts"
  shows "((\<exists>se. process_normalization pg = Inl (SyntaxError se)) \<longleftrightarrow>
            (\<exists>n\<in>set options. 1 < count_list opts (Str n)) \<or>
            (\<exists>t\<in>set opts. t \<notin> Str ` set options) \<or>
            (Str ''+framewise'' \<in> set opts \<and> Str ''-framewise'' \<in> set opts) \<or>
            (Str ''+axiswise'' \<in> set opts \<and> Str ''-axiswise'' \<in> set opts))
       \<and> ((\<exists>e. process_normalization pg = Inl e) \<longleftrightarrow>
            (\<exists>se. process_normalization pg = Inl (SyntaxError se)))
       \<and> (opts = [Str ''+axiswise'', Str ''+framewise''] \<longrightarrow>
            process_normalization pg = Inr (Some (norm_dict True True)))"
proof -
  let ?bad = "(\<exists>n\<in>set options. 1 < count_list opts (Str n)) \<or>
            (\<exists>t\<in>set opts. t \<notin> Str ` set options) \<or>
            (Str ''+framewise'' \<in> set opts \<and> Str ''-framewise'' \<in> set opts) \<or>
            (Str ''+axiswise'' \<in> set opts \<and> Str ''-axiswise'' \<in> set opts)"
  have bad: "?bad \<longleftrightarrow> \<not> valid_opts opts"
    unfolding valid_opts_def by (meson not_le)
  have ok: "process_normalization pg = Inr None \<or> process_normalization pg =
           Inr (Some (norm_dict (Str ''+axiswise'' \<in> set opts) (Str ''+framewise'' \<in> set opts)))"
    if "valid_opts opts"
  proof (cases "opts = []")
    case True
    then show ?thesis using assms by (simp add: process_normalization_def)
  next
    case False
    then show ?thesis using pn_valid [OF assms False that] by simp
  qed
  have a: "(\<exists>se. process_normalization pg = Inl (SyntaxError se)) \<longleftrightarrow> ?bad"
    using pn_invalid [OF assms] ok bad by auto
  have b: "(\<exists>e. process_normalization pg = Inl e) \<longleftrightarrow>
            (\<exists>se. process_normalization pg = Inl (SyntaxError se))"
    using pn_invalid [OF assms] ok by (cases "valid_opts opts") auto
  have c: "opts = [Str ''+axiswise'', Str ''+framewise''] \<longrightarrow>
            process_normalization pg = Inr (Some (norm_dict True True))"
  proof
    assume o: "opts = [Str ''+axiswise'', Str ''+framewise'']"
    then have "valid_opts opts" by (simp add: valid_opts_def options_def)
    from pn_valid [OF assms _ this] o show "process_normalization pg = Inr (Some (norm_dict True True))"
      by simp
  qed
  from a b c show ?thesis by blast
qed


text \<open>
  The theorem at \<^verbatim>\<open>{+framewise -framewise}\<close>, which is rejected, and at
  \<^verbatim>\<open>{+axiswise +framewise}\<close>, which is accepted.
\<close>

theorem process_normalization_raises_iff_witness:
  "norm_of (Some \<lparr>pathspec = ''Curve'',
                   norm_options = Some [Str ''+framewise'', Str ''-framewise''],
                   plot_options = None, style_options = None\<rparr>)
     = Some [Str ''+framewise'', Str ''-framewise'']
   \<and> (\<exists>se. process_normalization
              (Some \<lparr>pathspec = ''Curve'',
                     norm_options = Some [Str ''+framewise'', Str ''-framewise''],
                     plot_options = None, style_options = None\<rparr>) = Inl (SyntaxError se))
   \<and> norm_of (Some \<lparr>pathspec = ''Curve'',
                   norm_options = Some [Str ''+axiswise'', Str ''+framewise''],
                   plot_options = None, style_options = None\<rparr>)
     = Some [Str ''+axiswise'', Str ''+framewise'']
   \<and> process_normalization
         (Some \<lparr>pathspec = ''Curve'',
                norm_options = Some [Str ''+axiswise'', Str ''+framewise''],
                plot_options = None, style_options = None\<rparr>)
       = Inr (Some [(''axiswise'', True), (''framewise'', True)])"
proof -
  let ?g1 = "Some \<lparr>pathspec = ''Curve'',
                   norm_options = Some [Str ''+framewise'', Str ''-framewise''],
                   plot_options = None, style_options = None\<rparr>"
  let ?g2 = "Some \<lparr>pathspec = ''Curve'',
                   norm_options = Some [Str ''+axiswise'', Str ''+framewise''],
                   plot_options = None, style_options = None\<rparr>"
  have n1: "norm_of ?g1 = Some [Str ''+framewise'', Str ''-framewise'']"
    by (simp add: norm_of_def)
  have n2: "norm_of ?g2 = Some [Str ''+axiswise'', Str ''+framewise'']"
    by (simp add: norm_of_def)
  from process_normalization_raises_iff [OF n1]
  have "\<exists>se. process_normalization ?g1 = Inl (SyntaxError se)"
    by simp
  moreover from process_normalization_raises_iff [OF n2]
  have "process_normalization ?g2 = Inr (Some [(''axiswise'', True), (''framewise'', True)])"
    by (simp add: norm_dict_def)
  ultimately show ?thesis using n1 n2 by simp
qed

text \<open>
  Claim C4, as stated, fails for the empty list: \<^verbatim>\<open>if opts == []: return None\<close>
  comes before any default is computed, so an empty normalization block gives no
  normalization at all rather than two false flags.
\<close>

theorem process_normalization_empty_list_counterexample:
  "process_normalization
     (Some \<lparr>pathspec = ''Curve'', norm_options = Some [],
            plot_options = None, style_options = None\<rparr>)
     \<noteq> Inr (Some (norm_dict False False))
   \<and> process_normalization
         (Some \<lparr>pathspec = ''Curve'', norm_options = Some [],
                plot_options = None, style_options = None\<rparr>)
       = Inr None"
  by (simp add: process_normalization_def norm_of_def)

text \<open>
  Claim C4, amended. With no normalization block, or an empty one, the result is
  \<^verbatim>\<open>None\<close> and the options of the group have no \<^verbatim>\<open>norm\<close> entry. For a valid
  list: a single framewise flag gives axiswise false and framewise its sign; a single
  axiswise flag gives framewise false and axiswise its sign; with two or more tokens
  each flag is true exactly when its \<^verbatim>\<open>+\<close> token is present; and for every
  non-empty valid list the options of the group do have a \<^verbatim>\<open>norm\<close> entry,
  holding the two flags.
\<close>

theorem process_normalization_defaults:
  "(norm_of pg = None \<or> norm_of pg = Some [] \<longrightarrow>
      process_normalization pg = Inr None \<and>
      (\<forall>abort (ev :: string \<Rightarrow> ('k, 'v) evaluated) opts ws. group_options abort ev pg = Inr (opts, ws) \<longrightarrow>
         dict_get opts ''norm'' = None))
   \<and> (\<forall>opts. norm_of pg = Some opts \<and> valid_opts opts \<longrightarrow>
        (\<forall>sign. opts = [Str (sign # ''framewise'')] \<longrightarrow>
           process_normalization pg = Inr (Some (norm_dict False (sign = CHR ''+'')))) \<and>
        (\<forall>sign. opts = [Str (sign # ''axiswise'')] \<longrightarrow>
           process_normalization pg = Inr (Some (norm_dict (sign = CHR ''+'') False))) \<and>
        (2 \<le> length opts \<longrightarrow>
           process_normalization pg =
             Inr (Some (norm_dict (Str ''+axiswise'' \<in> set opts) (Str ''+framewise'' \<in> set opts)))) \<and>
        (opts \<noteq> [] \<longrightarrow>
           (\<forall>abort (ev :: string \<Rightarrow> ('k, 'v) evaluated) os ws. group_options abort ev pg = Inr (os, ws) \<longrightarrow>
              dict_get os ''norm'' =
                Some [(Name ''axiswise'', PyBool (Str ''+axiswise'' \<in> set opts)),
                      (Name ''framewise'', PyBool (Str ''+framewise'' \<in> set opts))])))"
proof -
  have none: "process_normalization pg = Inr None"
    if "norm_of pg = None \<or> norm_of pg = Some []"
    using that by (auto simp: process_normalization_def)
  have a: "norm_of pg = None \<or> norm_of pg = Some [] \<longrightarrow>
      process_normalization pg = Inr None \<and>
      (\<forall>abort (ev :: string \<Rightarrow> ('k, 'v) evaluated) opts ws. group_options abort ev pg = Inr (opts, ws) \<longrightarrow>
         dict_get opts ''norm'' = None)"
    using none group_options_norm [where pg = pg and n = None] by auto
  have b: "(\<forall>sign. opts = [Str (sign # ''framewise'')] \<longrightarrow>
           process_normalization pg = Inr (Some (norm_dict False (sign = CHR ''+'')))) \<and>
        (\<forall>sign. opts = [Str (sign # ''axiswise'')] \<longrightarrow>
           process_normalization pg = Inr (Some (norm_dict (sign = CHR ''+'') False))) \<and>
        (2 \<le> length opts \<longrightarrow>
           process_normalization pg =
             Inr (Some (norm_dict (Str ''+axiswise'' \<in> set opts) (Str ''+framewise'' \<in> set opts)))) \<and>
        (opts \<noteq> [] \<longrightarrow>
           (\<forall>abort (ev :: string \<Rightarrow> ('k, 'v) evaluated) os ws. group_options abort ev pg = Inr (os, ws) \<longrightarrow>
              dict_get os ''norm'' =
                Some [(Name ''axiswise'', PyBool (Str ''+axiswise'' \<in> set opts)),
                      (Name ''framewise'', PyBool (Str ''+framewise'' \<in> set opts))]))"
    if n: "norm_of pg = Some opts" and v: "valid_opts opts" for opts
  proof (intro conjI allI impI)
    fix sign assume o: "opts = [Str (sign # ''framewise'')]"
    with v have "sign = CHR ''+'' \<or> sign = CHR ''-''"
      by (auto simp: valid_opts_def options_def)
    with pn_valid [OF n _ v] o
    show "process_normalization pg = Inr (Some (norm_dict False (sign = CHR ''+'')))"
      by auto
  next
    fix sign assume o: "opts = [Str (sign # ''axiswise'')]"
    with v have "sign = CHR ''+'' \<or> sign = CHR ''-''"
      by (auto simp: valid_opts_def options_def)
    with pn_valid [OF n _ v] o
    show "process_normalization pg = Inr (Some (norm_dict (sign = CHR ''+'') False))"
      by auto
  next
    assume "2 \<le> length opts"
    then have "opts \<noteq> []" by auto
    from pn_valid [OF n this v]
    show "process_normalization pg =
             Inr (Some (norm_dict (Str ''+axiswise'' \<in> set opts) (Str ''+framewise'' \<in> set opts)))" .
  next
    fix abort and ev :: "string \<Rightarrow> ('k, 'v) evaluated" and os ws
    assume ne: "opts \<noteq> []" and g: "group_options abort ev pg = Inr (os, ws)"
    from group_options_norm [OF g pn_valid [OF n ne v]]
    show "dict_get os ''norm'' =
                Some [(Name ''axiswise'', PyBool (Str ''+axiswise'' \<in> set opts)),
                      (Name ''framewise'', PyBool (Str ''+framewise'' \<in> set opts))]"
      by (simp add: norm_dict_def)
  qed
  from a b show ?thesis by blast
qed


text \<open>
  The theorem with no block, with \<^verbatim>\<open>{-framewise}\<close>, with \<^verbatim>\<open>{+axiswise}\<close> and with
  \<^verbatim>\<open>{-axiswise +framewise}\<close>.
\<close>

theorem process_normalization_defaults_witness:
  "process_normalization None = Inr None
   \<and> valid_opts [Str ''-framewise'']
   \<and> process_normalization
         (Some \<lparr>pathspec = ''Curve'', norm_options = Some [Str ''-framewise''],
                plot_options = None, style_options = None\<rparr>)
       = Inr (Some [(''axiswise'', False), (''framewise'', False)])
   \<and> valid_opts [Str ''+axiswise'']
   \<and> process_normalization
         (Some \<lparr>pathspec = ''Curve'', norm_options = Some [Str ''+axiswise''],
                plot_options = None, style_options = None\<rparr>)
       = Inr (Some [(''axiswise'', True), (''framewise'', False)])
   \<and> valid_opts [Str ''-axiswise'', Str ''+framewise'']
   \<and> process_normalization
         (Some \<lparr>pathspec = ''Curve'', norm_options = Some [Str ''-axiswise'', Str ''+framewise''],
                plot_options = None, style_options = None\<rparr>)
       = Inr (Some [(''axiswise'', False), (''framewise'', True)])"
proof -
  let ?g1 = "Some \<lparr>pathspec = ''Curve'', norm_options = Some [Str ''-framewise''],
                plot_options = None, style_options = None\<rparr>"
  let ?g2 = "Some \<lparr>pathspec = ''Curve'', norm_options = Some [Str ''+axiswise''],
                plot_options = None, style_options = None\<rparr>"
  let ?g3 = "Some \<lparr>pathspec = ''Curve'', norm_options = Some [Str ''-axiswise'', Str ''+framewise''],
                plot_options = None, style_options = None\<rparr>"
  have v: "valid_opts [Str ''-framewise'']" "valid_opts [Str ''+axiswise'']"
      "valid_opts [Str ''-axiswise'', Str ''+framewise'']"
    by (simp_all add: valid_opts_def options_def)
  from process_normalization_defaults [where ?'v = unit and ?'k = unit and pg = None]
  have a: "process_normalization None = Inr None"
    by (simp add: norm_of_def)
  from process_normalization_defaults [where ?'v = unit and ?'k = unit and pg = "?g1"] v(1)
  have b: "process_normalization ?g1 = Inr (Some [(''axiswise'', False), (''framewise'', False)])"
    by (simp add: norm_of_def norm_dict_def)
  from process_normalization_defaults [where ?'v = unit and ?'k = unit and pg = "?g2"] v(2)
  have c: "process_normalization ?g2 = Inr (Some [(''axiswise'', True), (''framewise'', False)])"
    by (simp add: norm_of_def norm_dict_def)
  from process_normalization_defaults [where ?'v = unit and ?'k = unit and pg = "?g3"] v(3)
  have d: "process_normalization ?g3 = Inr (Some [(''axiswise'', False), (''framewise'', True)])"
    by (simp add: norm_of_def norm_dict_def)
  from a b c d v show ?thesis by simp
qed

subsection \<open>The first loop of todict\<close>

lemma group_loop_prefix:
  "acc \<noteq> [] \<Longrightarrow>
     group_loop (pre @ acc) gs =
       (case group_loop acc gs of Inl e \<Rightarrow> Inl e | Inr r \<Rightarrow> Inr (pre @ r))"
proof (induction gs arbitrary: acc)
  case Nil
  then show ?case by simp
next
  case (Cons g gs)
  obtain val items where g: "g = (val, items)" by (cases g)
  show ?case
  proof (cases val)
    case True
    from Cons.prems have "acc @ items \<noteq> []" by simp
    from Cons.IH [OF this] show ?thesis using g True by simp
  next
    case False
    have "butlast acc @ [last acc @ joiner_of items @ join (joiner_of items) items] \<noteq> []"
      by simp
    from Cons.IH [OF this] show ?thesis
      using g False Cons.prems by (simp add: butlast_append Let_def)
  qed
qed

lemma group_loop_nonempty:
  "acc \<noteq> [] \<Longrightarrow> \<exists>r. group_loop acc gs = Inr r"
proof (induction gs arbitrary: acc)
  case Nil
  then show ?case by simp
next
  case (Cons g gs)
  obtain val items where g: "g = (val, items)" by (cases g)
  show ?case
  proof (cases val)
    case True
    from Cons.prems have "acc @ items \<noteq> []" by simp
    from Cons.IH [OF this] show ?thesis using g True by simp
  next
    case False
    have "butlast acc @ [last acc @ joiner_of items @ join (joiner_of items) items] \<noteq> []"
      by simp
    from Cons.IH [OF this] show ?thesis
      using g False Cons.prems by (simp add: Let_def)
  qed
qed

lemma group_tokens_keyword_first:
  assumes "CHR ''='' \<in> set k"
  shows "group_tokens (k # ts) =
           group_loop (k # takeWhile (\<lambda>el. CHR ''='' \<in> set el) ts)
             (groupby (\<lambda>el. CHR ''='' \<in> set el) (dropWhile (\<lambda>el. CHR ''='' \<in> set el) ts))"
  using assms by (simp add: group_tokens_def)

lemma group_tokens_total:
  assumes "tokens = [] \<or> CHR ''='' \<in> set (hd tokens)"
  shows "\<exists>r. group_tokens tokens = Inr r"
proof (cases tokens)
  case Nil
  then show ?thesis by (simp add: group_tokens_def)
next
  case (Cons k ts)
  with assms have "CHR ''='' \<in> set k" by simp
  from group_tokens_keyword_first [OF this] group_loop_nonempty
  show ?thesis using Cons by simp
qed

lemma group_tokens_continuation_first:
  assumes "CHR ''='' \<notin> set t"
  shows "group_tokens (t # ts) = Inl IndexError"
  using assms by (simp add: group_tokens_def)

lemma group_loop_prefix_Inr:
  "acc \<noteq> [] \<Longrightarrow> group_loop acc gs = Inr r \<Longrightarrow> group_loop (x # acc) gs = Inr (x # r)"
  using group_loop_prefix [of acc "[x]" gs] by simp

lemma group_loop_single:
  assumes "rest = [] \<or> CHR ''='' \<in> set (hd rest)" "group_tokens rest = Inr r"
  shows "group_loop [x] (groupby (\<lambda>el. CHR ''='' \<in> set el) rest) = Inr (x # r)"
proof (cases rest)
  case Nil
  then show ?thesis using assms(2) by (simp add: group_tokens_def)
next
  case (Cons k ts)
  with assms have k: "CHR ''='' \<in> set k" by simp
  from assms(2) Cons k
  have "group_loop (k # takeWhile (\<lambda>el. CHR ''='' \<in> set el) ts)
             (groupby (\<lambda>el. CHR ''='' \<in> set el) (dropWhile (\<lambda>el. CHR ''='' \<in> set el) ts))
          = Inr r"
    by (simp add: group_tokens_def)
  from group_loop_prefix_Inr [OF _ this, of x]
  show ?thesis
    using Cons k by simp
qed

lemma takeWhile_run:
  assumes "\<forall>t\<in>set run. \<not> P t" "rest = [] \<or> P (hd rest)"
  shows "takeWhile (\<lambda>y. \<not> P y) (run @ rest) = run"
    and "dropWhile (\<lambda>y. \<not> P y) (run @ rest) = rest"
  using assms by (cases rest; simp add: takeWhile_append dropWhile_append)+

text \<open>
  Claim C8, as stated, fails: the source tests whether a token of the run contains
  \<^verbatim>\<open>)\<close> or \<^verbatim>\<open>}\<close>, matched or not. The run \<^verbatim>\<open>(2)\<close> has no unmatched closing
  bracket and is joined with a comma all the same.
\<close>

theorem group_tokens_matched_bracket_counterexample:
  "\<not> spec_has_unmatched_closer [''(2)'']
   \<and> group_tokens [''a=1'', ''(2)''] = Inr [''a=1,(2)'']
   \<and> group_tokens [''a=1'', ''(2)''] \<noteq> Inr [''a=1(2)'']"
  by (simp add: spec_has_unmatched_closer_def group_tokens_def joiner_of_def)

text \<open>
  Claim C8, amended. A keyword token \<open>k\<close> followed by a maximal run of tokens
  without \<^verbatim>\<open>=\<close> becomes one keyword: \<open>k\<close> itself when the run is empty; \<open>k\<close>, a
  comma, and the tokens of the run joined with commas when some token of the run
  contains \<^verbatim>\<open>)\<close> or \<^verbatim>\<open>}\<close>; \<open>k\<close> and the tokens of the run with no separator
  otherwise. The keywords of the rest of the sequence follow unchanged.
\<close>

theorem group_tokens_run:
  assumes "CHR ''='' \<in> set k"
      and "\<forall>t\<in>set run. CHR ''='' \<notin> set t"
      and "rest = [] \<or> CHR ''='' \<in> set (hd rest)"
  shows "\<exists>gs. group_tokens rest = Inr gs \<and>
           group_tokens (k # run @ rest) =
             Inr ((if run = [] then k
                   else if \<exists>el\<in>set run. CHR '')'' \<in> set el \<or> CHR ''}'' \<in> set el
                        then k @ '','' @ join '','' run
                        else k @ join [] run) # gs)"
proof -
  from group_tokens_total [OF assms(3)] obtain gs where gs: "group_tokens rest = Inr gs"
    by blast
  show ?thesis
  proof (cases run)
    case Nil
    have "group_tokens (k # rest) = Inr (k # gs)"
    proof (cases rest)
      case Nil
      with gs show ?thesis using assms(1) by (simp add: group_tokens_def)
    next
      case (Cons k' ts)
      with assms(3) have k': "CHR ''='' \<in> set k'" by simp
      from group_loop_single [OF assms(3) gs, of k]
      show ?thesis using Cons k' assms(1) by (simp add: group_tokens_def)
    qed
    with gs Nil show ?thesis by simp
  next
    case (Cons r rs)
    with assms(2) have r: "CHR ''='' \<notin> set r" and rs: "\<forall>t\<in>set rs. CHR ''='' \<notin> set t"
      by simp_all
    have tw: "takeWhile (\<lambda>y. CHR ''='' \<notin> set y) (rs @ rest) = rs"
         "dropWhile (\<lambda>y. CHR ''='' \<notin> set y) (rs @ rest) = rest"
      using takeWhile_run [where P = "\<lambda>y. CHR ''='' \<in> set y", OF _ assms(3), of rs] rs
      by simp_all
    have "group_tokens (k # run @ rest) =
            group_loop [k @ joiner_of run @ join (joiner_of run) run]
              (groupby (\<lambda>el. CHR ''='' \<in> set el) rest)"
      using assms(1) r tw Cons by (simp add: group_tokens_def Let_def)
    also have "\<dots> = Inr ((k @ joiner_of run @ join (joiner_of run) run) # gs)"
      using group_loop_single [OF assms(3) gs] by simp
    finally show ?thesis
      using gs Cons by (auto simp: joiner_of_def list_ex_iff)
  qed
qed

text \<open>
  The theorem at the tokens of \<^verbatim>\<open>a=(1, 2) b=2\<close>, where the tuple is restored, and of
  \<^verbatim>\<open>a=1 + 2\<close>, joined with no separator.
\<close>

theorem group_tokens_run_witness:
  "CHR ''='' \<in> set ''a=(1'' \<and> CHR ''='' \<notin> set ''2)'' \<and> CHR ''='' \<in> set ''b=2''
   \<and> group_tokens [''a=(1'', ''2)'', ''b=2''] = Inr [''a=(1,2)'', ''b=2'']
   \<and> CHR ''='' \<in> set ''a=1'' \<and> CHR ''='' \<notin> set ''+'' \<and> CHR ''='' \<notin> set ''2''
   \<and> group_tokens [''a=1'', ''+'', ''2''] = Inr [''a=1+2'']"
proof -
  have b: "group_tokens [''b=2''] = Inr [''b=2'']" "group_tokens [] = Inr []"
    by (simp_all add: group_tokens_def)
  from group_tokens_run [of "''a=(1''" "[''2)'']" "[''b=2'']"] b
  have 1: "group_tokens [''a=(1'', ''2)'', ''b=2''] = Inr [''a=(1,2)'', ''b=2'']"
    by simp
  from group_tokens_run [of "''a=1''" "[''+'', ''2'']" "[]"] b
  have 2: "group_tokens [''a=1'', ''+'', ''2''] = Inr [''a=1+2'']"
    by simp
  from 1 2 show ?thesis by simp
qed

text \<open>
  Claim C10. When the first collected token has no \<^verbatim>\<open>=\<close>, \<^verbatim>\<open>todict\<close> fails with
  an IndexError at \<^verbatim>\<open>grouped[-1]\<close>, whatever the configuration and the namespace;
  so it returns a dictionary only when there is no token at all or the first token
  contains \<^verbatim>\<open>=\<close>.
\<close>

theorem todict_needs_keyword_first:
  "(\<forall>t ts. collect_tokens parseresult mode = Inr (t # ts) \<and> CHR ''='' \<notin> set t \<longrightarrow>
      todict abort ev parseresult mode = Inl IndexError)
   \<and> (\<forall>r. todict abort ev parseresult mode = Inr r \<longrightarrow>
        (\<exists>tokens. collect_tokens parseresult mode = Inr tokens \<and>
           (tokens = [] \<or> CHR ''='' \<in> set (hd tokens))))"
proof (intro conjI allI impI)
  fix t ts
  assume "collect_tokens parseresult mode = Inr (t # ts) \<and> CHR ''='' \<notin> set t"
  then show "todict abort ev parseresult mode = Inl IndexError"
    by (simp add: todict_def bind_err_def group_tokens_continuation_first)
next
  fix r
  assume r: "todict abort ev parseresult mode = Inr r"
  then obtain tokens where c: "collect_tokens parseresult mode = Inr tokens"
    by (cases "collect_tokens parseresult mode") (simp_all add: todict_def bind_err_def)
  have "tokens = [] \<or> CHR ''='' \<in> set (hd tokens)"
  proof (rule ccontr)
    assume "\<not> (tokens = [] \<or> CHR ''='' \<in> set (hd tokens))"
    then obtain t ts where "tokens = t # ts" "CHR ''='' \<notin> set t"
      by (cases tokens) auto
    with c r show False
      by (simp add: todict_def bind_err_def group_tokens_continuation_first)
  qed
  with c show "\<exists>tokens. collect_tokens parseresult mode = Inr tokens \<and>
           (tokens = [] \<or> CHR ''='' \<in> set (hd tokens))"
    by blast
qed

text \<open>
  The theorem at the style block \<^verbatim>\<open>(foo)\<close>; the failure is what
  \<^verbatim>\<open>OptsSpec.parse\<close> gives for the line \<^verbatim>\<open>Curve (foo)\<close>.
\<close>

theorem todict_needs_keyword_first_witness:
  "collect_tokens (Some [Str ''foo'']) ''parens'' = Inr [''foo'']
   \<and> CHR ''='' \<notin> set ''foo''
   \<and> todict False (\<lambda>e. (Raises :: (unit, unit) evaluated)) (Some [Str ''foo'']) ''parens''
       = Inl IndexError
   \<and> OptsSpec_parse (\<lambda>l. [((), 0, 11)])
        (\<lambda>l. Inr [\<lparr>pathspec = ''Curve'', norm_options = None, plot_options = None,
                    style_options = Some [Str ''foo'']\<rparr>])
        False (\<lambda>e. (Raises :: (unit, unit) evaluated)) ''Curve (foo)''
       = Inl IndexError"
proof -
  let ?ev = "\<lambda>e :: string. (Raises :: (unit, unit) evaluated)"
  have c: "collect_tokens (Some [Str ''foo'']) ''parens'' = Inr [''foo'']"
    by (simp add: collect_tokens_def strip_def isspace_def strip_commas_def bind_err_def)
  from todict_needs_keyword_first [of "Some [Str ''foo'']" "''parens''" False ?ev] c
  have t: "todict False ?ev (Some [Str ''foo'']) ''parens'' = Inl IndexError"
    by simp
  have s: "check_scan ''Curve (foo)'' [((), 0, 11)] = Inr ()"
    by (simp add: check_scan_def)
  have "OptsSpec_parse (\<lambda>l. [((), 0, 11)])
        (\<lambda>l. Inr [\<lparr>pathspec = ''Curve'', norm_options = None, plot_options = None,
                    style_options = Some [Str ''foo'']\<rparr>])
        False ?ev ''Curve (foo)'' = Inl IndexError"
    using t s
    by (simp add: OptsSpec_parse_def bind_err_def group_paths_without_options_def
        has_options_def set_add_def group_options_def process_normalization_def norm_of_def
        plot_of_def style_of_def)
  with c t show ?thesis by simp
qed

subsection \<open>The second loop of todict\<close>

lemma eval_loop_warn:
  "eval_loop False ev kwargs ws grouped =
     Inr (foldl dict_update kwargs (map (pairs_stored ev) grouped),
          ws @ map (\<lambda>k. Ignoring_keyword (repair k)) (filter (fails ev) grouped))"
proof (induction grouped arbitrary: kwargs ws)
  case Nil
  show ?case by simp
next
  case (Cons k grouped)
  show ?case
  proof (cases "ev (''dict('' @ repair k @ '')'')")
    case Raises
    then show ?thesis
      by (simp add: Cons.IH pairs_stored_def fails_def)
  next
    case (Updates pairs completed)
    then show ?thesis
      by (cases completed) (simp_all add: Cons.IH pairs_stored_def fails_def)
  qed
qed

lemma eval_loop_abort:
  assumes "\<forall>p\<in>set pre. \<not> fails ev p" and "fails ev k"
  shows "eval_loop True ev kwargs ws (pre @ k # post) =
           Inl (SyntaxError (Could_not_evaluate_keyword (repair k)))"
  using assms
proof (induction pre arbitrary: kwargs ws)
  case Nil
  then show ?case
    by (auto simp: fails_def split: evaluated.splits bool.splits)
next
  case (Cons p pre)
  from Cons.prems have "\<not> fails ev p" by simp
  then obtain pairs where "ev (''dict('' @ repair p @ '')'') = Updates pairs True"
    by (auto simp: fails_def split: evaluated.splits)
  with Cons show ?case by simp
qed

lemma eval_loop_all_ok:
  assumes "\<forall>p\<in>set grouped. \<not> fails ev p"
  shows "eval_loop True ev kwargs ws grouped = eval_loop False ev kwargs ws grouped"
  using assms
proof (induction grouped arbitrary: kwargs ws)
  case Nil
  show ?case by simp
next
  case (Cons p grouped)
  from Cons.prems have "\<not> fails ev p" by simp
  then obtain pairs where "ev (''dict('' @ repair p @ '')'') = Updates pairs True"
    by (auto simp: fails_def split: evaluated.splits)
  with Cons show ?case by simp
qed

lemma repair_eval:
  "repair ''a=1'' = ''a=1''" "repair ''b=)'' = ''b=)''" "repair ''c=3'' = ''c=3''"
  "repair ''a=1)and(((1,2),3))or(2'' = ''a=1)and(((1,2),3))or(2''"
  by (simp_all add: repair_def fixups_def replace.simps)

text \<open>
  Claim C7 against the source. Once the keywords are grouped, with the abort flag false
  \<^verbatim>\<open>todict\<close> returns the dictionary updated, in order, with the pairs every keyword
  stores, and one warning for every keyword whose evaluation or update raises; with the
  abort flag set it raises a syntax error naming the first such keyword, and behaves as
  before when there is none. A keyword whose update raises midway is warned about as
  ignored, yet the pairs stored before the failure stay in the result: the
  \<^verbatim>\<open>try\<close> block covers \<^verbatim>\<open>kwargs.update\<close> as well as \<^verbatim>\<open>eval\<close>.
\<close>

theorem todict_eval_failure:
  assumes "collect_tokens parseresult mode = Inr tokens"
      and "group_tokens tokens = Inr grouped"
  shows "todict False ev parseresult mode =
           Inr (foldl dict_update [] (map (pairs_stored ev) grouped),
                map (\<lambda>k. Ignoring_keyword (repair k)) (filter (fails ev) grouped))
       \<and> (\<forall>pre k post.
             grouped = pre @ k # post \<and> (\<forall>p\<in>set pre. \<not> fails ev p) \<and> fails ev k \<longrightarrow>
             todict True ev parseresult mode =
               Inl (SyntaxError (Could_not_evaluate_keyword (repair k))))
       \<and> ((\<forall>k\<in>set grouped. \<not> fails ev k) \<longrightarrow>
             todict True ev parseresult mode = todict False ev parseresult mode)"
  using assms
  by (auto simp: todict_def bind_err_def eval_loop_warn eval_loop_abort eval_loop_all_ok)

text \<open>
  The theorem at the settings \<^verbatim>\<open>[a=1)and(((1,2),3))or(2]\<close>, one token. The expression
  \<^verbatim>\<open>dict(a=1)and(((1,2),3))or(2)\<close> evaluates to the tuple \<^verbatim>\<open>((1, 2), 3)\<close>; the update
  stores the pair \<^verbatim>\<open>(1, 2)\<close> and raises at \<^verbatim>\<open>3\<close>. The keyword is reported as ignored
  and the result holds the key \<^verbatim>\<open>1\<close>. Then at \<^verbatim>\<open>[a=1 b=) c=3]\<close>, whose second keyword
  does not evaluate at all and leaves nothing.
\<close>

theorem todict_eval_failure_witness:
  "collect_tokens (Some [Str ''a=1)and(((1,2),3))or(2'']) ''brackets''
     = Inr [''a=1)and(((1,2),3))or(2'']
   \<and> group_tokens [''a=1)and(((1,2),3))or(2''] = Inr [''a=1)and(((1,2),3))or(2'']
   \<and> todict False
         (\<lambda>e. if e = ''dict(a=1)and(((1,2),3))or(2)''
              then Updates [(Key (1::nat), PyObj (2::nat))] False else Raises)
         (Some [Str ''a=1)and(((1,2),3))or(2'']) ''brackets''
       = Inr ([(Key 1, PyObj 2)], [Ignoring_keyword ''a=1)and(((1,2),3))or(2''])
   \<and> todict True
         (\<lambda>e. if e = ''dict(a=1)and(((1,2),3))or(2)''
              then Updates [(Key (1::nat), PyObj (2::nat))] False else Raises)
         (Some [Str ''a=1)and(((1,2),3))or(2'']) ''brackets''
       = Inl (SyntaxError (Could_not_evaluate_keyword ''a=1)and(((1,2),3))or(2''))
   \<and> todict False
         (\<lambda>e. if e = ''dict(a=1)'' then Updates [(Name ''a'', PyObj ''1'')] True
              else if e = ''dict(c=3)'' then Updates [(Name ''c'', PyObj ''3'')] True
              else (Raises :: (unit, string) evaluated))
         (Some [Str ''a=1'', Str ''b=)'', Str ''c=3'']) ''brackets''
       = Inr ([(Name ''a'', PyObj ''1''), (Name ''c'', PyObj ''3'')], [Ignoring_keyword ''b=)''])"
proof -
  let ?tok = "''a=1)and(((1,2),3))or(2''"
  let ?ev = "\<lambda>e. if e = ''dict(a=1)and(((1,2),3))or(2)''
              then Updates [(Key (1::nat), PyObj (2::nat))] False else Raises"
  let ?good = "\<lambda>e. if e = ''dict(a=1)'' then Updates [(Name ''a'', PyObj ''1'')] True
              else if e = ''dict(c=3)'' then Updates [(Name ''c'', PyObj ''3'')] True
              else (Raises :: (unit, string) evaluated)"
  have c: "collect_tokens (Some [Str ?tok]) ''brackets'' = Inr [?tok]"
    by (simp add: collect_tokens_def strip_def isspace_def strip_commas_def bind_err_def)
  have g: "group_tokens [?tok] = Inr [?tok]"
    by (simp add: group_tokens_def)
  have f: "fails ?ev ?tok"
    by (simp add: fails_def repair_eval)
  have p: "pairs_stored ?ev ?tok = [(Key 1, PyObj 2)]"
    by (simp add: pairs_stored_def repair_eval)
  note t = todict_eval_failure [OF c g, of ?ev]
  have 1: "todict False ?ev (Some [Str ?tok]) ''brackets''
             = Inr ([(Key 1, PyObj 2)], [Ignoring_keyword ?tok])"
    unfolding t [THEN conjunct1] by (simp add: f p repair_eval dict_set_def)
  have h: "[?tok] = [] @ ?tok # [] \<and> (\<forall>p\<in>set []. \<not> fails ?ev p) \<and> fails ?ev ?tok"
    using f by simp
  from t [THEN conjunct2, THEN conjunct1, THEN spec, THEN spec, THEN spec, THEN mp, OF h]
  have 2: "todict True ?ev (Some [Str ?tok]) ''brackets''
             = Inl (SyntaxError (Could_not_evaluate_keyword ?tok))"
    by (simp add: repair_eval)
  have c3: "collect_tokens (Some [Str ''a=1'', Str ''b=)'', Str ''c=3'']) ''brackets''
              = Inr [''a=1'', ''b=)'', ''c=3'']"
    by (simp add: collect_tokens_def strip_def isspace_def strip_commas_def bind_err_def)
  have g3: "group_tokens [''a=1'', ''b=)'', ''c=3''] = Inr [''a=1'', ''b=)'', ''c=3'']"
    by (simp add: group_tokens_def)
  have 3: "todict False ?good (Some [Str ''a=1'', Str ''b=)'', Str ''c=3'']) ''brackets''
       = Inr ([(Name ''a'', PyObj ''1''), (Name ''c'', PyObj ''3'')], [Ignoring_keyword ''b=)''])"
    unfolding todict_eval_failure [OF c3 g3, of ?good, THEN conjunct1]
    by (simp add: pairs_stored_def fails_def repair_eval dict_set_def)
  show ?thesis
    by (rule conjI [OF c conjI [OF g conjI [OF 1 conjI [OF 2 3]]]])
qed

subsection \<open>Collecting tokens\<close>

lemma collect_loop_append:
  "collect_loop inner acc (xs @ ys) =
     bind_err (collect_loop inner acc xs) (\<lambda>a. collect_loop inner a ys)"
proof (induction inner acc xs rule: collect_loop.induct)
  case (1 inner tokens)
  show ?case by (simp add: bind_err_def)
next
  case (2 inner tokens ts rest)
  then show ?case by (simp add: bind_err_def)
next
  case (3 inner tokens s rest)
  then show ?case
    by (cases "strip_commas s") (simp_all add: bind_err_def)
qed

lemma collect_loop_flat:
  "collect_loop inner acc (map Str ts) = Inr out \<longleftrightarrow>
     (\<exists>ss. out = acc @ ss \<and>
        list_all2 (\<lambda>t s. strip_commas t = Inr s) (filter (\<lambda>t. strip t \<noteq> '','') ts) ss)"
proof (induction ts arbitrary: acc)
  case Nil
  show ?case by auto
next
  case (Cons t ts)
  show ?case
  proof (cases "strip t = '',''")
    case True
    then show ?thesis using Cons.IH [of acc] by simp
  next
    case False
    show ?thesis
    proof (cases "strip_commas t")
      case (Inl e)
      then show ?thesis using False by (simp add: bind_err_def list_all2_Cons1)
    next
      case (Inr kw)
      then show ?thesis
        using False Cons.IH [of "acc @ [kw]"]
        by (auto simp: bind_err_def list_all2_Cons1)
    qed
  qed
qed

lemma strip_commas_shape:
  assumes "strip_commas t = Inr s"
  shows "t = (if hd t = CHR '','' then '','' else []) @ s
               @ (if last t = CHR '','' then '','' else [])"
proof -
  from assms have ne: "t \<noteq> []"
    by (auto simp: strip_commas_def Let_def)
  show ?thesis
  proof (cases "last t = CHR '',''")
    case False
    then show ?thesis
      using assms ne by (cases t) (auto simp: strip_commas_def Let_def split: if_splits)
  next
    case True
    with ne obtain u where t: "t = u @ '',''"
      by (metis append_butlast_last_id)
    from assms have u: "u \<noteq> []"
      and s: "s = (if hd u = CHR '','' then tl u else u)"
      unfolding t by (auto simp: strip_commas_def Let_def split: if_splits)
    show ?thesis
      unfolding t s using u by (cases u) auto
  qed
qed

lemma strip_commas_fixed:
  "strip_commas s = Inr s \<longleftrightarrow> s \<noteq> [] \<and> hd s \<noteq> CHR '','' \<and> last s \<noteq> CHR '',''"
proof
  assume a: "strip_commas s = Inr s"
  have "length s = length ((if hd s = CHR '','' then '','' else []) @ s
               @ (if last s = CHR '','' then '','' else []))"
    by (rule arg_cong [OF strip_commas_shape [OF a]])
  then have "hd s \<noteq> CHR '','' \<and> last s \<noteq> CHR '',''"
    by (auto split: if_splits)
  moreover have "s \<noteq> []"
  proof
    assume "s = []"
    with a show False by (simp add: strip_commas_def)
  qed
  ultimately show "s \<noteq> [] \<and> hd s \<noteq> CHR '','' \<and> last s \<noteq> CHR '',''" by simp
next
  assume "s \<noteq> [] \<and> hd s \<noteq> CHR '','' \<and> last s \<noteq> CHR '',''"
  then show "strip_commas s = Inr s" by (simp add: strip_commas_def Let_def)
qed

lemma filter_length_all:
  assumes "length (filter P xs) = length xs"
  shows "\<forall>x\<in>set xs. P x"
proof (rule ballI, rule ccontr)
  fix x
  assume "x \<in> set xs" "\<not> P x"
  then have "length (filter P xs) < length xs"
    by (rule length_filter_less)
  with assms show False by simp
qed

lemma collect_tokens_fixed:
  "collect_tokens (Some (map Str out)) mode = Inr out \<longleftrightarrow>
     (\<forall>s\<in>set out. s \<noteq> [] \<and> hd s \<noteq> CHR '','' \<and> last s \<noteq> CHR '','' \<and> strip s \<noteq> '','')"
proof
  assume "collect_tokens (Some (map Str out)) mode = Inr out"
  then have l: "list_all2 (\<lambda>t s. strip_commas t = Inr s) (filter (\<lambda>t. strip t \<noteq> '','') out) out"
    by (simp add: collect_tokens_def collect_loop_flat)
  then have "length (filter (\<lambda>t. strip t \<noteq> '','') out) = length out"
    by (rule list_all2_lengthD)
  then have keep: "\<forall>s\<in>set out. strip s \<noteq> '',''"
    by (rule filter_length_all)
  then have "filter (\<lambda>t. strip t \<noteq> '','') out = out"
    by simp
  with l have "\<forall>s\<in>set out. strip_commas s = Inr s"
    by (simp add: list_all2_same)
  with keep show "\<forall>s\<in>set out. s \<noteq> [] \<and> hd s \<noteq> CHR '','' \<and> last s \<noteq> CHR '','' \<and> strip s \<noteq> '',''"
    by (simp add: strip_commas_fixed)
next
  assume a: "\<forall>s\<in>set out. s \<noteq> [] \<and> hd s \<noteq> CHR '','' \<and> last s \<noteq> CHR '','' \<and> strip s \<noteq> '',''"
  then have "filter (\<lambda>t. strip t \<noteq> '','') out = out"
    by simp
  moreover from a have "list_all2 (\<lambda>t s. strip_commas t = Inr s) out out"
    by (simp add: list_all2_same strip_commas_fixed)
  ultimately show "collect_tokens (Some (map Str out)) mode = Inr out"
    by (simp add: collect_tokens_def collect_loop_flat)
qed

text \<open>
  Claim C9 against the source. The docstring of \<^verbatim>\<open>_strip_commas\<close> says that it
  strips any leading or trailing commas, and idempotence of collecting on flat input
  rests on that. What \<^verbatim>\<open>collect_tokens\<close> computes on flat input: tokens are
  processed from left to right, the tokens collected so far being carried along. The
  result is, in order, what \<^verbatim>\<open>_strip_commas\<close> returns for every token that is not a
  bare comma once its surrounding whitespace is stripped; but \<^verbatim>\<open>_strip_commas\<close>
  removes one leading comma and one trailing comma only. So a second pass returns the
  output of the first unchanged exactly when no token of that output is empty, begins
  or ends with a comma, or is a bare comma up to whitespace.
\<close>

theorem collect_tokens_flat:
  "collect_tokens (Some (xs @ ys)) mode =
     bind_err (collect_tokens (Some xs) mode) (\<lambda>a. collect_loop (inner_of mode) a ys)
   \<and> (collect_tokens (Some (map Str ts)) mode = Inr out \<longleftrightarrow>
        list_all2 (\<lambda>t s. strip_commas t = Inr s) (filter (\<lambda>t. strip t \<noteq> '','') ts) out)
   \<and> (\<forall>t s. strip_commas t = Inr s \<longrightarrow>
        t = (if hd t = CHR '','' then '','' else []) @ s
              @ (if last t = CHR '','' then '','' else []))
   \<and> (collect_tokens (Some (map Str ts)) mode = Inr out \<longrightarrow>
        (collect_tokens (Some (map Str out)) mode = Inr out \<longleftrightarrow>
           (\<forall>s\<in>set out. s \<noteq> [] \<and> hd s \<noteq> CHR '','' \<and> last s \<noteq> CHR '','' \<and> strip s \<noteq> '','')))"
proof (intro conjI allI impI)
  show "collect_tokens (Some (xs @ ys)) mode =
     bind_err (collect_tokens (Some xs) mode) (\<lambda>a. collect_loop (inner_of mode) a ys)"
    by (simp add: collect_tokens_def collect_loop_append)
next
  show "collect_tokens (Some (map Str ts)) mode = Inr out \<longleftrightarrow>
        list_all2 (\<lambda>t s. strip_commas t = Inr s) (filter (\<lambda>t. strip t \<noteq> '','') ts) out"
    by (simp add: collect_tokens_def collect_loop_flat)
next
  fix t s
  assume "strip_commas t = Inr s"
  then show "t = (if hd t = CHR '','' then '','' else []) @ s
              @ (if last t = CHR '','' then '','' else [])"
    by (rule strip_commas_shape)
next
  show "collect_tokens (Some (map Str out)) mode = Inr out \<longleftrightarrow>
           (\<forall>s\<in>set out. s \<noteq> [] \<and> hd s \<noteq> CHR '','' \<and> last s \<noteq> CHR '','' \<and> strip s \<noteq> '','')"
    by (rule collect_tokens_fixed)
qed

text \<open>
  The theorem at the flat tokens of \<^verbatim>\<open>(a=1,, b=2)\<close>: the first token keeps a
  trailing comma after one pass, and a second pass over the output changes it again.
\<close>

theorem collect_tokens_flat_witness:
  "strip_commas ''a=1,,'' = Inr ''a=1,''
   \<and> collect_tokens (Some (map Str [''a=1,,'', ''b=2''])) ''parens'' = Inr [''a=1,'', ''b=2'']
   \<and> list_all2 (\<lambda>t s. strip_commas t = Inr s) [''a=1,,'', ''b=2''] [''a=1,'', ''b=2'']
   \<and> collect_tokens (Some (map Str [''a=1,'', ''b=2''])) ''parens'' \<noteq> Inr [''a=1,'', ''b=2'']
   \<and> collect_tokens (Some (map Str [''a=1,'', ''b=2''])) ''parens'' = Inr [''a=1'', ''b=2'']"
proof -
  note t = collect_tokens_flat [of "[]" "[]" "''parens''" "[''a=1,,'', ''b=2'']"
      "[''a=1,'', ''b=2'']"]
  have sc: "strip_commas ''a=1,,'' = Inr ''a=1,''"
    by (simp add: strip_commas_def)
  have c: "collect_tokens (Some (map Str [''a=1,,'', ''b=2''])) ''parens''
             = Inr [''a=1,'', ''b=2'']"
    by (simp add: collect_tokens_def strip_def isspace_def strip_commas_def bind_err_def Let_def)
  have f: "filter (\<lambda>t. strip t \<noteq> '','') [''a=1,,'', ''b=2''] = [''a=1,,'', ''b=2'']"
    by (simp add: strip_def isspace_def)
  have l: "list_all2 (\<lambda>t s. strip_commas t = Inr s)
             (filter (\<lambda>t. strip t \<noteq> '','') [''a=1,,'', ''b=2'']) [''a=1,'', ''b=2'']"
    by (rule iffD1 [OF t [THEN conjunct2, THEN conjunct1] c])
  have st: "\<not> (\<forall>s\<in>set [''a=1,'', ''b=2''].
              s \<noteq> [] \<and> hd s \<noteq> CHR '','' \<and> last s \<noteq> CHR '','' \<and> strip s \<noteq> '','')"
    by simp
  have n: "collect_tokens (Some (map Str [''a=1,'', ''b=2''])) ''parens''
             \<noteq> Inr [''a=1,'', ''b=2'']"
    using t [THEN conjunct2, THEN conjunct2, THEN conjunct2, THEN mp, OF c] st by blast
  have i: "collect_tokens (Some (map Str [''a=1,'', ''b=2''])) ''parens'' = Inr [''a=1'', ''b=2'']"
    by (simp add: collect_tokens_def strip_def isspace_def strip_commas_def bind_err_def Let_def)
  from sc c l n i show ?thesis unfolding f by (intro conjI)
qed

subsection \<open>Consuming the whole line\<close>







subsection \<open>Compositor operations\<close>

lemma compositor_loop_append:
  "compositor_loop opmap abort ev definitions ws (xs @ ys) =
     bind_err (compositor_loop opmap abort ev definitions ws xs)
       (\<lambda>(d, w). compositor_loop opmap abort ev d w ys)"
proof (induction xs arbitrary: definitions ws)
  case Nil
  show ?case by (simp add: bind_err_def)
next
  case (Cons g xs)
  show ?case
    by (auto simp: Cons.IH bind_err_def Let_def split: option.splits sum.splits prod.splits)
qed

lemma compositor_loop_KeyError:
  assumes "g_mode g = Some mode" "mode = ''data'' \<or> mode = ''display''"
      and "dict_get opmap (g_op g) = None"
  shows "compositor_loop opmap abort ev definitions ws (g # rest) = Inl (KeyError (g_op g))"
  using assms by auto

lemma strip_commas_errors: "strip_commas kw = Inl e \<Longrightarrow> e = IndexError"
  by (auto simp: strip_commas_def Let_def split: if_splits)

lemma collect_loop_errors: "collect_loop inner acc toks = Inl e \<Longrightarrow> e = IndexError"
proof (induction inner acc toks rule: collect_loop.induct)
  case (1 inner tokens)
  then show ?case by simp
next
  case (2 inner tokens ts rest)
  then show ?case by (simp split: if_splits)
next
  case (3 inner tokens s rest)
  then show ?case
    by (cases "strip_commas s")
       (auto simp: bind_err_def split: if_splits dest: strip_commas_errors)
qed

lemma group_loop_errors: "group_loop acc gs = Inl e \<Longrightarrow> e = IndexError"
  by (induction acc gs rule: group_loop.induct) (auto simp: Let_def split: if_splits)

lemma eval_loop_errors:
  "eval_loop abort ev kwargs ws grouped = Inl e \<Longrightarrow>
     \<exists>k. e = SyntaxError (Could_not_evaluate_keyword k)"
  by (induction grouped arbitrary: kwargs ws)
     (auto simp: Let_def split: evaluated.splits bool.splits if_splits)

lemma todict_errors:
  assumes "todict abort ev parseresult mode = Inl e"
  shows "e = IndexError \<or> (\<exists>k. e = SyntaxError (Could_not_evaluate_keyword k))"
proof (cases "collect_tokens parseresult mode")
  case (Inl e')
  with assms have "e' = e" by (simp add: todict_def bind_err_def)
  with Inl show ?thesis
    by (auto simp: collect_tokens_def split: option.splits dest: collect_loop_errors)
next
  case (Inr tokens)
  note c = this
  show ?thesis
  proof (cases "group_tokens tokens")
    case (Inl e')
    with assms c have "e' = e" by (simp add: todict_def bind_err_def)
    with Inl show ?thesis
      by (auto simp: group_tokens_def dest: group_loop_errors)
  next
    case (Inr grouped)
    with assms c have "eval_loop abort ev [] [] grouped = Inl e"
      by (simp add: todict_def bind_err_def)
    then show ?thesis by (auto dest: eval_loop_errors)
  qed
qed

lemma keyword_args_errors: "keyword_args d = Inl e \<Longrightarrow> e = TypeError"
  by (induction d rule: keyword_args.induct) (auto simp: bind_err_def split: sum.splits)

lemma strings_of_errors: "strings_of ts = Inl e \<Longrightarrow> e = TypeError"
  by (induction ts rule: strings_of.induct) (auto simp: bind_err_def split: sum.splits)

lemma compositor_loop_errors:
  "compositor_loop opmap abort ev definitions ws groups
     \<noteq> Inl (SyntaxError (Operation_not_available op))"
proof (induction groups arbitrary: definitions ws)
  case Nil
  show ?case by simp
next
  case (Cons g groups)
  show ?case
    using Cons.IH
    by (auto simp: bind_err_def Let_def dict_contains_def dict_get_def
        split: option.splits sum.splits prod.splits
        dest!: strings_of_errors todict_errors keyword_args_errors)
qed

lemma compositor_loop_order:
  "compositor_loop opmap abort ev definitions ws groups = Inr (defs, w) \<Longrightarrow>
     map c_value defs = map c_value definitions @ map g_value groups"
proof (induction groups arbitrary: definitions ws)
  case Nil
  then show ?case by simp
next
  case (Cons g groups)
  then show ?case
    by (auto simp: bind_err_def Let_def split: option.splits sum.splits prod.splits if_splits)
qed

text \<open>
  Claim C6 against the source. The lookup \<^verbatim>\<open>operation = opmap[group['op']]\<close>
  comes two lines before the test \<^verbatim>\<open>if group['op'] not in opmap\<close>: for the first
  group whose operation is not registered (the groups before it processed, its mode
  valid) the call fails with a KeyError, and the syntax error for an operation that is
  not available is never raised. When the loop returns, the definitions are in the
  order of the groups.
\<close>

theorem compositor_unregistered_operation:
  "(\<forall>pre g rest d w mode.
      compositor_loop opmap abort ev [] [] pre = Inr (d, w)
      \<and> g_mode g = Some mode \<and> (mode = ''data'' \<or> mode = ''display'')
      \<and> dict_get opmap (g_op g) = None
      \<and> check_scan line (scanC line) = Inr () \<and> parseC line = Inr (pre @ g # rest)
      \<longrightarrow> CompositorSpec_parse scanC parseC opmap abort ev line = Inl (KeyError (g_op g)))
   \<and> (\<forall>definitions ws groups op.
        compositor_loop opmap abort ev definitions ws groups
          \<noteq> Inl (SyntaxError (Operation_not_available op)))
   \<and> (\<forall>groups defs w.
        compositor_loop opmap abort ev [] [] groups = Inr (defs, w) \<longrightarrow>
          map c_value defs = map g_value groups)"
proof (intro conjI allI impI)
  fix pre g rest d w mode
  assume a: "compositor_loop opmap abort ev [] [] pre = Inr (d, w)
      \<and> g_mode g = Some mode \<and> (mode = ''data'' \<or> mode = ''display'')
      \<and> dict_get opmap (g_op g) = None
      \<and> check_scan line (scanC line) = Inr () \<and> parseC line = Inr (pre @ g # rest)"
  then have "compositor_loop opmap abort ev d w (g # rest) = Inl (KeyError (g_op g))"
    by (intro compositor_loop_KeyError) auto
  with a have "compositor_loop opmap abort ev [] [] (pre @ g # rest) = Inl (KeyError (g_op g))"
    by (simp add: compositor_loop_append bind_err_def)
  with a show "CompositorSpec_parse scanC parseC opmap abort ev line = Inl (KeyError (g_op g))"
    by (simp add: CompositorSpec_parse_def bind_err_def)
next
  fix definitions ws groups op
  show "compositor_loop opmap abort ev definitions ws groups
          \<noteq> Inl (SyntaxError (Operation_not_available op))"
    by (rule compositor_loop_errors)
next
  fix groups defs w
  assume "compositor_loop opmap abort ev [] [] groups = Inr (defs, w)"
  from compositor_loop_order [OF this] show "map c_value defs = map g_value groups"
    by simp
qed

text \<open>
  The theorem at the line \<^verbatim>\<open>data foo (A * B) C\<close> with only \<^verbatim>\<open>max\<close> registered.
\<close>

theorem compositor_unregistered_operation_witness:
  "check_scan ''data foo (A * B) C'' [((), 0, 18)] = Inr ()
   \<and> dict_get [(''max'', 0 :: nat)] ''foo'' = None
   \<and> CompositorSpec_parse (\<lambda>l. [((), 0, 18)])
        (\<lambda>l. Inr [\<lparr>g_mode = Some ''data'', g_op = ''foo'',
                    g_spec = [Str ''A'', Str ''*'', Str ''B''], g_value = ''C'',
                    g_op_settings = None\<rparr>])
        [(''max'', 0 :: nat)] False (\<lambda>e. (Raises :: (unit, unit) evaluated))
        ''data foo (A * B) C''
       = Inl (KeyError ''foo'')"
proof -
  let ?g = "\<lparr>g_mode = Some ''data'', g_op = ''foo'',
                    g_spec = [Str ''A'', Str ''*'', Str ''B''], g_value = ''C'',
                    g_op_settings = None\<rparr>"
  let ?ev = "\<lambda>e :: string. (Raises :: (unit, unit) evaluated)"
  have s: "check_scan ''data foo (A * B) C'' [((), 0 :: nat, 18 :: nat)] = Inr ()"
    by (simp add: check_scan_def)
  have d: "dict_get [(''max'', 0 :: nat)] ''foo'' = None"
    by (simp add: dict_get_def)
  have l: "compositor_loop [(''max'', 0 :: nat)] False ?ev [] [] [] = Inr ([], [])"
    by simp
  from compositor_unregistered_operation [where opmap = "[(''max'', 0 :: nat)]"
      and abort = False and ev = ?ev and line = "''data foo (A * B) C''"
      and scanC = "\<lambda>l. [((), 0, 18)]" and parseC = "\<lambda>l. Inr [?g]",
      THEN conjunct1, rule_format, of "[]" "[]" "[]" ?g "''data''" "[]"] s d l
  have "CompositorSpec_parse (\<lambda>l. [((), 0, 18)]) (\<lambda>l. Inr [?g])
        [(''max'', 0 :: nat)] False ?ev ''data foo (A * B) C'' = Inl (KeyError ''foo'')"
    by simp
  with s d show ?thesis by (intro conjI)
qed

subsection \<open>Dictionaries and the table of parsed options\<close>

lemma dict_get_set:
  "dict_get (dict_set d k v) k' = (if k' = k then Some v else dict_get d k')"
  by (simp add: dict_get_def dict_set_def update_conv')

lemma dict_get_Nil: "dict_get [] k = None"
  by (simp add: dict_get_def)

lemma dict_get_Cons:
  "dict_get ((k, v) # d) k' = (if k' = k then Some v else dict_get d k')"
  by (simp add: dict_get_def)

lemma dict_get_None_iff: "dict_get d k = None \<longleftrightarrow> k \<notin> fst ` set d"
  by (simp add: dict_get_def map_of_eq_None_iff)

lemma dict_contains_get: "dict_contains k d \<longleftrightarrow> dict_get d k \<noteq> None"
  by (simp add: dict_contains_def dict_get_def)

lemma dict_get_update:
  "distinct (map fst other) \<Longrightarrow>
     dict_get (dict_update d other) k =
       (case dict_get other k of Some v \<Rightarrow> Some v | None \<Rightarrow> dict_get d k)"
proof (induction other arbitrary: d)
  case Nil
  show ?case by (simp add: dict_get_Nil)
next
  case (Cons kv other)
  obtain k0 v0 where kv: "kv = (k0, v0)" by (cases kv)
  from Cons.prems kv have d: "distinct (map fst other)" and n: "k0 \<notin> fst ` set other"
    by auto
  from n have "dict_get other k0 = None"
    by (simp add: dict_get_None_iff)
  then show ?case
    using Cons.IH [OF d, of "dict_set d k0 v0"] kv
    by (auto simp: dict_get_set dict_get_Cons split: option.splits)
qed

lemma dict_get_merge_step:
  "dict_get (merge_step merged c opts) c' =
     (if c' = c
      then Some (dict_update (case dict_get merged c of None \<Rightarrow> [] | Some m \<Rightarrow> m) opts)
      else dict_get merged c')"
  by (auto simp: merge_step_def Let_def dict_get_set dict_contains_get split: option.splits)

lemma dict_get_merge_loop:
  "distinct (map fst new) \<Longrightarrow>
     dict_get (merge_loop merged new) c =
       (case dict_get new c of
          None \<Rightarrow> dict_get merged c
        | Some n \<Rightarrow> Some (dict_update (case dict_get merged c of None \<Rightarrow> [] | Some m \<Rightarrow> m) n))"
proof (induction new arbitrary: merged)
  case Nil
  show ?case by (simp add: dict_get_Nil)
next
  case (Cons cn new)
  obtain c0 n0 where cn: "cn = (c0, n0)" by (cases cn)
  from Cons.prems cn have d: "distinct (map fst new)" and n: "c0 \<notin> fst ` set new"
    by auto
  from n have none: "dict_get new c0 = None"
    by (simp add: dict_get_None_iff)
  show ?case
  proof (cases "c = c0")
    case True
    with none show ?thesis
      using Cons.IH [OF d, of "merge_step merged c0 n0"] cn
      by (simp add: dict_get_merge_step dict_get_Cons split: option.splits)
  next
    case False
    then show ?thesis
      using Cons.IH [OF d, of "merge_step merged c0 n0"] cn
      by (simp add: dict_get_merge_step dict_get_Cons split: option.splits)
  qed
qed


lemma distinct_dict_set: "distinct (map fst d) \<Longrightarrow> distinct (map fst (dict_set d k v))"
  by (simp add: dict_set_def distinct_update)

lemma distinct_foldl_dict_set:
  "distinct (map fst acc) \<Longrightarrow>
     distinct (map fst (foldl (\<lambda>d (k, v). dict_set d (f k) (h v)) acc xs))"
  by (induction xs arbitrary: acc) (auto simp: distinct_dict_set)

lemma distinct_alias_keys: "distinct (map fst (alias_keys d))"
  using distinct_foldl_dict_set [of "[]" alias_of "\<lambda>v. v" d]
  by (simp add: alias_keys_def)

lemma set_set_add: "set (set_add x xs) = insert x (set xs)"
  by (auto simp: set_add_def)

lemma distinct_set_add: "distinct xs \<Longrightarrow> distinct (set_add x xs)"
  by (simp add: set_add_def)

lemma set_pending:
  "set (foldl (\<lambda>a b. set_add (pathspec b) a) active bs) = set active \<union> pathspec ` set bs"
  by (induction bs arbitrary: active) (auto simp: set_set_add)

lemma distinct_pending:
  "distinct active \<Longrightarrow> distinct (foldl (\<lambda>a b. set_add (pathspec b) a) active bs)"
  by (induction bs arbitrary: active) (auto simp: distinct_set_add)

lemma group_paths_pending:
  assumes "\<forall>b\<in>set bare. \<not> has_options b" "has_options g"
  shows "group_paths active (bare @ g # rest) =
           (foldl (\<lambda>a b. set_add (pathspec b) a) active (bare @ [g]), Some g)
             # group_paths [] rest"
  using assms by (induction bare arbitrary: active) (simp_all add: Let_def)

lemma group_paths_trailing:
  assumes "\<forall>b\<in>set bare. \<not> has_options b"
  shows "group_paths active bare =
           (if foldl (\<lambda>a b. set_add (pathspec b) a) active bare \<noteq> []
            then [(foldl (\<lambda>a b. set_add (pathspec b) a) active bare, None)] else [])"
  using assms by (induction bare arbitrary: active) (simp_all add: Let_def)

lemma group_paths_append:
  assumes "gs \<noteq> []" "has_options (last gs)"
  shows "group_paths active (gs @ ys) = group_paths active gs @ group_paths [] ys"
  using assms
proof (induction gs arbitrary: active)
  case Nil
  then show ?case by simp
next
  case (Cons g gs)
  show ?case
  proof (cases "gs = []")
    case True
    with Cons.prems show ?thesis by (simp add: Let_def)
  next
    case False
    with Cons.prems have "has_options (last gs)" by simp
    from Cons.IH [OF False this] show ?thesis by (simp add: Let_def)
  qed
qed

lemma update_fresh: "k \<notin> fst ` set d \<Longrightarrow> AList.update k v d = d @ [(k, v)]"
  by (induction d) auto

lemma update_last: "k \<notin> fst ` set d \<Longrightarrow> AList.update k v (d @ [(k, x)]) = d @ [(k, v)]"
  by (induction d) auto

lemma dict_update_fresh:
  "distinct (map fst (d @ other)) \<Longrightarrow> dict_update d other = d @ other"
proof (induction other arbitrary: d)
  case Nil
  show ?case by simp
next
  case (Cons kv other)
  obtain k v where kv: "kv = (k, v)" by (cases kv)
  from Cons.prems kv have f: "k \<notin> fst ` set d" and d: "distinct (map fst ((d @ [(k, v)]) @ other))"
    by auto
  from Cons.IH [OF d] f kv show ?case
    by (simp add: dict_set_def update_fresh)
qed

lemma merge_loop_fresh:
  assumes "distinct (map fst (merged @ new))" "\<forall>(c, n)\<in>set new. distinct (map fst n)"
  shows "merge_loop merged new = merged @ new"
  using assms
proof (induction new arbitrary: merged)
  case Nil
  show ?case by simp
next
  case (Cons cn new)
  obtain c n where cn: "cn = (c, n)" by (cases cn)
  from Cons.prems cn have f: "c \<notin> fst ` set merged"
    and d: "distinct (map fst ((merged @ [(c, n)]) @ new))"
    and dn: "distinct (map fst n)" and i: "\<forall>(c, n)\<in>set new. distinct (map fst n)"
    by auto
  from f have g: "dict_get merged c = None" by (simp add: dict_get_None_iff)
  from dn have "dict_update [] n = n"
    using dict_update_fresh [of "[]" n] by simp
  moreover have "dict_get (dict_set merged c []) c = Some []"
    by (simp add: dict_get_set)
  moreover have "dict_set (dict_set merged c []) c n = merged @ [(c, n)]"
    using f by (simp add: dict_set_def update_fresh update_last)
  ultimately have "merge_step merged c n = merged @ [(c, n)]"
    using g by (simp add: merge_step_def dict_contains_get)
  with Cons.IH [OF d i] cn show ?case by simp
qed

lemma merge_options_empty:
  "distinct (map fst opts) \<Longrightarrow> \<forall>(c, n)\<in>set opts. distinct (map fst n) \<Longrightarrow>
     merge_options [] opts = opts"
  using merge_loop_fresh [of "[]" opts] by (simp add: merge_options_def)

lemma wf_opts_Nil: "wf_opts []"
  by (simp add: wf_opts_def)

lemma wf_opts_dict_set:
  assumes "wf_opts d" "distinct (map fst v)"
  shows "wf_opts (dict_set d k v)"
proof -
  have "\<forall>(c, n)\<in>set (AList.update k v d). distinct (map fst n)"
    using assms unfolding wf_opts_def by (induction d) auto
  with assms show ?thesis
    by (simp add: wf_opts_def dict_set_def distinct_update)
qed

lemma process_normalization_distinct:
  "process_normalization g = Inr (Some n) \<Longrightarrow> distinct (map fst n)"
  by (auto simp: process_normalization_def norm_dict_def bind_err_def
      split: option.splits if_splits sum.splits bool.splits)

lemma process_normalization_PyBool:
  "process_normalization g = Inr (Some n) \<Longrightarrow>
     distinct (map fst (map (\<lambda>(k, b). (Name k, PyBool b)) n))"
  by (auto simp: process_normalization_def norm_dict_def bind_err_def
      split: option.splits if_splits sum.splits bool.splits)

lemma group_options_wf:
  assumes "group_options abort ev g = Inr (opts, w)"
  shows "wf_opts opts"
  using assms unfolding group_options_def bind_err_def
  by (auto simp: Let_def
      intro!: wf_opts_dict_set wf_opts_Nil distinct_alias_keys process_normalization_PyBool
      split: option.splits sum.splits prod.splits)

lemma dict_get_assign_paths:
  "distinct ps \<Longrightarrow>
     dict_get (assign_paths parse ps opts) p =
       (if p \<in> set ps
        then Some (merge_options (case dict_get parse p of None \<Rightarrow> [] | Some old \<Rightarrow> old) opts)
        else dict_get parse p)"
  by (induction ps arbitrary: parse) (auto simp: dict_get_set)

lemma keys_assign_paths:
  "fst ` set (assign_paths parse ps opts) = fst ` set parse \<union> set ps"
  by (induction ps arbitrary: parse) (auto simp: dict_set_def dom_update)

lemma distinct_assign_paths:
  "distinct (map fst parse) \<Longrightarrow> distinct (map fst (assign_paths parse ps opts))"
  by (induction ps arbitrary: parse) (auto simp: distinct_dict_set)

lemma group_options_None: "group_options abort ev None = Inr ([], [])"
  by (simp add: group_options_def process_normalization_def norm_of_def plot_of_def
      style_of_def bind_err_def)

lemma group_options_bare:
  "\<not> has_options g \<Longrightarrow> group_options abort ev (Some g) = Inr ([], [])"
  by (simp add: group_options_def process_normalization_def norm_of_def plot_of_def
      style_of_def bind_err_def has_options_def)

lemma option_value_merge:
  assumes "wf_opts new"
  shows "option_value (merge_options old new) c k =
           (case option_value new c k of
              Some v \<Rightarrow> Some v
            | None \<Rightarrow> option_value old c k)"
proof -
  from assms have d: "distinct (map fst new)"
    and i: "\<forall>(c, n)\<in>set new. distinct (map fst n)"
    by (simp_all add: wf_opts_def)
  show ?thesis
  proof (cases "dict_get new c")
    case None
    then show ?thesis
      using dict_get_merge_loop [OF d, of old c]
      by (simp add: option_value_def merge_options_def)
  next
    case (Some n)
    then have "(c, n) \<in> set new"
      by (simp add: dict_get_def map_of_SomeD)
    with i have dn: "distinct (map fst n)" by auto
    show ?thesis
      using dict_get_merge_loop [OF d, of old c] Some dict_get_update [OF dn]
      by (auto simp: option_value_def merge_options_def dict_get_Nil split: option.splits)
  qed
qed

lemma distinct_merge_step:
  "distinct (map fst merged) \<Longrightarrow> distinct (map fst (merge_step merged c opts))"
  by (auto simp: merge_step_def Let_def distinct_dict_set split: option.splits)

lemma distinct_merge_options:
  "distinct (map fst old) \<Longrightarrow> distinct (map fst (merge_options old new))"
  unfolding merge_options_def
proof (induction new arbitrary: old)
  case Nil
  then show ?case by simp
next
  case (Cons cn new)
  obtain c n where "cn = (c, n)" by (cases cn)
  with Cons show ?case by (simp add: distinct_merge_step)
qed

lemma merged_value:
  assumes "\<forall>opts\<in>set given. wf_opts opts"
  shows "(case foldl (\<lambda>a opts. Some (merge_options (case a of None \<Rightarrow> [] | Some old \<Rightarrow> old) opts))
                 entry given of
            None \<Rightarrow> None
          | Some d \<Rightarrow> option_value d c k) =
         (case spec_merged_value given c k of
            Some v \<Rightarrow> Some v
          | None \<Rightarrow> (case entry of None \<Rightarrow> None | Some d \<Rightarrow> option_value d c k))"
  using assms
proof (induction given arbitrary: entry)
  case Nil
  show ?case by simp
next
  case (Cons opts given)
  from Cons.prems have w: "wf_opts opts" and r: "\<forall>opts\<in>set given. wf_opts opts"
    by simp_all
  have e: "option_value [] c k = None"
    by (simp add: option_value_def dict_get_Nil)
  show ?case
    using Cons.IH [OF r, of "Some (merge_options (case entry of None \<Rightarrow> [] | Some old \<Rightarrow> old) opts)"]
    by (simp add: option_value_merge [OF w] e split: option.splits)
qed

lemma merged_distinct:
  assumes "case entry of None \<Rightarrow> True | Some d \<Rightarrow> distinct (map fst d)"
  shows "case foldl (\<lambda>a opts. Some (merge_options (case a of None \<Rightarrow> [] | Some old \<Rightarrow> old) opts))
                 entry given of
           None \<Rightarrow> True
         | Some d \<Rightarrow> distinct (map fst d)"
  using assms
proof (induction given arbitrary: entry)
  case Nil
  then show ?case by simp
next
  case (Cons opts given)
  have "distinct (map fst (merge_options (case entry of None \<Rightarrow> [] | Some old \<Rightarrow> old) opts))"
    using Cons.prems by (intro distinct_merge_options) (simp split: option.splits)
  then show ?case
    using Cons.IH [of "Some (merge_options (case entry of None \<Rightarrow> [] | Some old \<Rightarrow> old) opts)"]
    by simp
qed

lemma merged_Some:
  "given \<noteq> [] \<Longrightarrow>
     foldl (\<lambda>a opts. Some (merge_options (case a of None \<Rightarrow> [] | Some old \<Rightarrow> old) opts))
       entry given \<noteq> None"
proof (induction given arbitrary: entry)
  case Nil
  then show ?case by simp
next
  case (Cons opts given)
  show ?case
  proof (cases "given = []")
    case True
    then show ?thesis by simp
  next
    case False
    from Cons.IH [OF this] show ?thesis by simp
  qed
qed

lemma options_given_Cons:
  "options_given abort ev p ((ps, g) # ys) =
     (if p \<in> set ps
      then (case group_options abort ev g of Inr (opts, ws) \<Rightarrow> [opts] | Inl e \<Rightarrow> [])
      else []) @ options_given abort ev p ys"
  by (simp add: options_given_def)

lemma options_given_Nil: "options_given abort ev p [] = []"
  by (simp add: options_given_def)

lemma options_given_append:
  "options_given abort ev p (xs @ ys) = options_given abort ev p xs @ options_given abort ev p ys"
  by (simp add: options_given_def)

lemma options_given_Inl:
  assumes "group_options abort ev g = Inl e"
  shows "options_given abort ev p ((ps, g) # ys) = options_given abort ev p ys"
  by (simp add: options_given_Cons assms)

lemma options_given_Inr:
  assumes "group_options abort ev g = Inr (opts, w)"
  shows "options_given abort ev p ((ps, g) # ys) =
           (if p \<in> set ps then [opts] else []) @ options_given abort ev p ys"
  by (simp add: options_given_Cons assms)

lemma options_given_wf:
  assumes "opts \<in> set (options_given abort ev p ys)"
  shows "wf_opts opts"
  using assms
proof (induction ys)
  case Nil
  then show ?case by (simp add: options_given_Nil)
next
  case (Cons y ys)
  obtain ps g where y: "y = (ps, g)" by (cases y)
  show ?case
  proof (cases "group_options abort ev g")
    case (Inl e)
    with Cons show ?thesis by (simp add: y options_given_Inl)
  next
    case (Inr r)
    obtain o1 w where r: "r = (o1, w)" by (cases r)
    from Inr r have "wf_opts o1" by (intro group_options_wf) simp
    with Cons Inr r show ?thesis by (auto simp: y options_given_Inr split: if_splits)
  qed
qed

lemma parse_loop_table:
  assumes "parse_loop abort ev tbl ws ys = Inr (tbl1, ws1)"
      and "\<forall>(ps, g)\<in>set ys. distinct ps"
  shows "dict_get tbl1 p =
           foldl (\<lambda>a opts. Some (merge_options (case a of None \<Rightarrow> [] | Some old \<Rightarrow> old) opts))
             (dict_get tbl p) (options_given abort ev p ys)"
  using assms
proof (induction ys arbitrary: tbl ws)
  case Nil
  then show ?case by (simp add: options_given_Nil)
next
  case (Cons y ys)
  obtain ps g where y: "y = (ps, g)" by (cases y)
  from Cons.prems(1) y obtain opts w where go: "group_options abort ev g = Inr (opts, w)"
    and rest: "parse_loop abort ev (assign_paths tbl ps opts) (ws @ w) ys = Inr (tbl1, ws1)"
    by (cases "group_options abort ev g") (auto simp: bind_err_def)
  from Cons.prems(2) y have d: "distinct ps" and ds: "\<forall>(ps, g)\<in>set ys. distinct ps"
    by auto
  show ?case
    unfolding y Cons.IH [OF rest ds]
    by (simp add: options_given_Inr [OF go] dict_get_assign_paths [OF d])
qed

lemma parse_loop_keys:
  assumes "parse_loop abort ev tbl ws ys = Inr (tbl1, ws1)"
  shows "fst ` set tbl1 = fst ` set tbl \<union> \<Union> (set ` fst ` set ys)"
  using assms
proof (induction ys arbitrary: tbl ws)
  case Nil
  then show ?case by simp
next
  case (Cons y ys)
  obtain ps g where y: "y = (ps, g)" by (cases y)
  from Cons.prems(1) y obtain opts w where
    rest: "parse_loop abort ev (assign_paths tbl ps opts) (ws @ w) ys = Inr (tbl1, ws1)"
    by (cases "group_options abort ev g") (auto simp: bind_err_def)
  from Cons.IH [OF rest] show ?case
    by (auto simp: y keys_assign_paths)
qed

lemma parse_loop_distinct:
  assumes "parse_loop abort ev tbl ws ys = Inr (tbl1, ws1)" "distinct (map fst tbl)"
  shows "distinct (map fst tbl1)"
  using assms
proof (induction ys arbitrary: tbl ws)
  case Nil
  then show ?case by simp
next
  case (Cons y ys)
  obtain ps g where y: "y = (ps, g)" by (cases y)
  from Cons.prems(1) y obtain opts w where
    rest: "parse_loop abort ev (assign_paths tbl ps opts) (ws @ w) ys = Inr (tbl1, ws1)"
    by (cases "group_options abort ev g") (auto simp: bind_err_def)
  from Cons.IH [OF rest] Cons.prems(2) show ?case
    by (simp add: distinct_assign_paths)
qed

lemma parse_loop_warnings:
  assumes "parse_loop abort ev tbl ws ys = Inr (tbl1, ws1)"
  shows "\<forall>(ps, g)\<in>set ys. \<exists>opts w. group_options abort ev g = Inr (opts, w)"
  using assms
proof (induction ys arbitrary: tbl ws)
  case Nil
  then show ?case by simp
next
  case (Cons y ys)
  obtain ps g where y: "y = (ps, g)" by (cases y)
  from Cons.prems(1) y obtain opts w where go: "group_options abort ev g = Inr (opts, w)"
    and rest: "parse_loop abort ev (assign_paths tbl ps opts) (ws @ w) ys = Inr (tbl1, ws1)"
    by (cases "group_options abort ev g") (auto simp: bind_err_def)
  from Cons.IH [OF rest] go y show ?case by auto
qed

lemma group_paths_distinct:
  "distinct active \<Longrightarrow> \<forall>(ps, g)\<in>set (group_paths active gs). distinct ps"
proof (induction gs arbitrary: active)
  case Nil
  then show ?case by simp
next
  case (Cons g gs)
  from Cons.prems have "distinct (set_add (pathspec g) active)"
    by (rule distinct_set_add)
  with Cons.IH [of "set_add (pathspec g) active"] Cons.IH [of "[]"]
  show ?case by (auto simp: Let_def)
qed

lemma group_paths_paths:
  "\<Union> (set ` fst ` set (group_paths active gs)) = set active \<union> pathspec ` set gs"
proof (induction gs arbitrary: active)
  case Nil
  show ?case by simp
next
  case (Cons g gs)
  show ?case
    using Cons.IH [of "set_add (pathspec g) active"] Cons.IH [of "[]"]
    by (auto simp: Let_def set_set_add)
qed

lemma keyword_args_get:
  "keyword_args n = Inr kw \<Longrightarrow> dict_get kw s = dict_get n (Name s)"
proof (induction n arbitrary: kw rule: keyword_args.induct)
  case 1
  then show ?case by (simp add: dict_get_Nil)
next
  case (2 s0 v rest)
  from "2.prems" obtain kw0 where r: "keyword_args rest = Inr kw0" and kw: "kw = (s0, v) # kw0"
    by (cases "keyword_args rest") (auto simp: bind_err_def)
  from "2.IH" [OF r] show ?case
    by (simp add: kw dict_get_Cons)
next
  case (3 k v rest)
  then show ?case by simp
qed

lemma wrap_loop_get:
  assumes "wrap_loop d opts = Inr wrapped" "distinct (map fst opts)"
  shows "dict_get wrapped c =
           (case dict_get opts c of
              None \<Rightarrow> dict_get d c
            | Some n \<Rightarrow> (case keyword_args n of Inr kw \<Rightarrow> Some (Options kw) | Inl e \<Rightarrow> None))"
  using assms
proof (induction opts arbitrary: d)
  case Nil
  then show ?case by (simp add: dict_get_Nil)
next
  case (Cons cn opts)
  obtain c0 n0 where cn: "cn = (c0, n0)" by (cases cn)
  from Cons.prems(1) cn obtain kw where k: "keyword_args n0 = Inr kw"
    and rest: "wrap_loop (dict_set d c0 (Options kw)) opts = Inr wrapped"
    by (cases "keyword_args n0") (auto simp: bind_err_def)
  from Cons.prems(2) cn have dist: "distinct (map fst opts)" and fresh: "dict_get opts c0 = None"
    by (auto simp: dict_get_None_iff)
  from Cons.IH [OF rest dist] fresh k show ?case
    by (auto simp: cn dict_get_Cons dict_get_set split: option.splits)
qed

lemma wrap_loop_keywords:
  assumes "wrap_loop d opts = Inr wrapped" "(c, n) \<in> set opts"
  shows "\<exists>kw. keyword_args n = Inr kw"
  using assms
proof (induction opts arbitrary: d)
  case Nil
  then show ?case by simp
next
  case (Cons cn opts)
  obtain c0 n0 where cn: "cn = (c0, n0)" by (cases cn)
  from Cons.prems(1) cn obtain kw where k: "keyword_args n0 = Inr kw"
    and rest: "wrap_loop (dict_set d c0 (Options kw)) opts = Inr wrapped"
    by (cases "keyword_args n0") (auto simp: bind_err_def)
  from Cons.prems(2) cn have "(c, n) = (c0, n0) \<or> (c, n) \<in> set opts" by simp
  then show ?case
  proof
    assume "(c, n) = (c0, n0)"
    with k show ?thesis by simp
  next
    assume "(c, n) \<in> set opts"
    from Cons.IH [OF rest this] show ?thesis .
  qed
qed

lemma wrap_options_value:
  assumes "wrap_options opts = Inr wrapped" "distinct (map fst opts)"
  shows "options_value wrapped c s = option_value opts c (Name s)"
proof (cases "dict_get opts c")
  case None
  with wrap_loop_get [OF assms [unfolded wrap_options_def], of c] show ?thesis
    by (simp add: options_value_def option_value_def dict_get_Nil)
next
  case (Some n)
  then have "(c, n) \<in> set opts"
    by (simp add: dict_get_def map_of_SomeD)
  from wrap_loop_keywords [OF assms(1) [unfolded wrap_options_def] this]
  obtain kw where kw: "keyword_args n = Inr kw" by blast
  from wrap_loop_get [OF assms [unfolded wrap_options_def], of c] Some kw
    keyword_args_get [OF kw, of s]
  show ?thesis
    by (simp add: options_value_def option_value_def)
qed

lemma wrap_options_Nil: "wrap_options [] = Inr []"
  by (simp add: wrap_options_def)

lemma finalize_get:
  assumes "finalize out ws tbl = Inr (out1, ws1)" "distinct (map fst tbl)"
      and "\<forall>q\<in>fst ` set tbl. fst (apply_deprecations q) = fst (apply_deprecations p) \<longrightarrow> q = p"
  shows "case dict_get tbl p of
           None \<Rightarrow> dict_get out1 (fst (apply_deprecations p))
                    = dict_get out (fst (apply_deprecations p))
         | Some opts \<Rightarrow> \<exists>wrapped. wrap_options opts = Inr wrapped
                    \<and> dict_get out1 (fst (apply_deprecations p)) = Some wrapped"
  using assms
proof (induction tbl arbitrary: out ws)
  case Nil
  then show ?case by (simp add: dict_get_Nil)
next
  case (Cons qo tbl)
  obtain q opts where qo: "qo = (q, opts)" by (cases qo)
  obtain q1 w1 where ad: "apply_deprecations q = (q1, w1)" by (cases "apply_deprecations q")
  from Cons.prems(1) qo ad obtain wrapped where w: "wrap_options opts = Inr wrapped"
    and rest: "finalize (dict_set out q1 wrapped) (ws @ w1) tbl = Inr (out1, ws1)"
    by (cases "wrap_options opts") (auto simp: bind_err_def)
  from Cons.prems(2) qo have dist: "distinct (map fst tbl)" and fresh: "dict_get tbl q = None"
    by (auto simp: dict_get_None_iff)
  from Cons.prems(3) qo
  have coll: "\<forall>q\<in>fst ` set tbl. fst (apply_deprecations q) = fst (apply_deprecations p) \<longrightarrow> q = p"
    and here: "fst (apply_deprecations q) = fst (apply_deprecations p) \<longrightarrow> q = p"
    by auto
  note ih = Cons.IH [OF rest dist coll]
  show ?case
  proof (cases "q = p")
    case True
    with fresh ih w ad show ?thesis
      by (simp add: qo dict_get_Cons dict_get_set)
  next
    case False
    with here ad have "q1 \<noteq> fst (apply_deprecations p)" by auto
    with ih False show ?thesis
      by (auto simp: qo dict_get_Cons dict_get_set split: option.splits)
  qed
qed

lemma finalize_warnings:
  "finalize out ws tbl = Inr (out1, ws1) \<Longrightarrow>
     ws1 = ws @ concat (map (\<lambda>(q, opts). snd (apply_deprecations q)) tbl)"
proof (induction tbl arbitrary: out ws)
  case Nil
  then show ?case by simp
next
  case (Cons qo tbl)
  obtain q opts where qo: "qo = (q, opts)" by (cases qo)
  obtain q1 w1 where ad: "apply_deprecations q = (q1, w1)" by (cases "apply_deprecations q")
  from Cons.prems(1) qo ad obtain wrapped where
    rest: "finalize (dict_set out q1 wrapped) (ws @ w1) tbl = Inr (out1, ws1)"
    by (cases "wrap_options opts") (auto simp: bind_err_def)
  from Cons.IH [OF rest] show ?case
    by (simp add: qo ad)
qed

text \<open>
  What \<^verbatim>\<open>OptsSpec.parse\<close> returns for a path \<open>p\<close> of the line, when no other path of
  the line is rewritten to the same name by the deprecation table: the options given to
  \<open>p\<close>, merged from left to right and wrapped.
\<close>

lemma parse_entry:
  assumes parse: "OptsSpec_parse scanString parseString abort ev line = Inr (out, ws)"
      and groups: "parseString line = Inr groups"
      and p: "p \<in> pathspec ` set groups"
      and coll: "\<forall>q\<in>pathspec ` set groups.
                   fst (apply_deprecations q) = fst (apply_deprecations p) \<longrightarrow> q = p"
  shows "\<exists>entry od.
           foldl (\<lambda>a opts. Some (merge_options (case a of None \<Rightarrow> [] | Some old \<Rightarrow> old) opts))
             None (options_given abort ev p (group_paths_without_options groups)) = Some entry
           \<and> distinct (map fst entry)
           \<and> wrap_options entry = Inr od
           \<and> dict_get out (fst (apply_deprecations p)) = Some od"
proof -
  let ?ys = "group_paths_without_options groups"
  from parse groups obtain tbl w where pl: "parse_loop abort ev [] [] ?ys = Inr (tbl, w)"
    and fin: "finalize [] w tbl = Inr (out, ws)"
    by (cases "check_scan line (scanString line)";
        cases "parse_loop abort ev [] [] (group_paths_without_options groups)")
       (auto simp: OptsSpec_parse_def bind_err_def)
  have dys: "\<forall>(ps, g)\<in>set ?ys. distinct ps"
    unfolding group_paths_without_options_def by (rule group_paths_distinct) simp
  have paths: "\<Union> (set ` fst ` set ?ys) = pathspec ` set groups"
    unfolding group_paths_without_options_def using group_paths_paths [of "[]" groups] by simp
  have keys: "fst ` set tbl = pathspec ` set groups"
    using parse_loop_keys [OF pl] paths by simp
  have dist: "distinct (map fst tbl)"
    using parse_loop_distinct [OF pl] by simp
  have tab: "dict_get tbl p =
           foldl (\<lambda>a opts. Some (merge_options (case a of None \<Rightarrow> [] | Some old \<Rightarrow> old) opts))
             None (options_given abort ev p ?ys)"
    using parse_loop_table [OF pl dys, of p] by (simp add: dict_get_Nil)
  from p keys have "dict_get tbl p \<noteq> None"
    by (simp add: dict_get_None_iff)
  then obtain entry where e: "dict_get tbl p = Some entry" by auto
  have f: "foldl (\<lambda>a opts. Some (merge_options (case a of None \<Rightarrow> [] | Some old \<Rightarrow> old) opts))
             None (options_given abort ev p ?ys) = Some entry"
    using tab e by simp
  have de: "distinct (map fst entry)"
    using merged_distinct [of None "options_given abort ev p ?ys"] by (simp add: f)
  from finalize_get [OF fin dist, of p] coll keys e
  obtain od where "wrap_options entry = Inr od"
    "dict_get out (fst (apply_deprecations p)) = Some od"
    by auto
  with f de show ?thesis by blast
qed

lemma parse_value:
  assumes parse: "OptsSpec_parse scanString parseString abort ev line = Inr (out, ws)"
      and groups: "parseString line = Inr groups"
      and p: "p \<in> pathspec ` set groups"
      and coll: "\<forall>q\<in>pathspec ` set groups.
                   fst (apply_deprecations q) = fst (apply_deprecations p) \<longrightarrow> q = p"
  shows "\<exists>od. dict_get out (fst (apply_deprecations p)) = Some od
           \<and> (\<forall>c s. options_value od c s =
                 spec_merged_value
                   (options_given abort ev p (group_paths_without_options groups)) c (Name s))"
proof -
  let ?given = "options_given abort ev p (group_paths_without_options groups)"
  from parse_entry [OF assms] obtain entry od where
    e: "foldl (\<lambda>a opts. Some (merge_options (case a of None \<Rightarrow> [] | Some old \<Rightarrow> old) opts))
             None ?given = Some entry"
    and de: "distinct (map fst entry)"
    and w: "wrap_options entry = Inr od"
    and o: "dict_get out (fst (apply_deprecations p)) = Some od"
    by blast
  have wf: "\<forall>opts\<in>set ?given. wf_opts opts"
    using options_given_wf by blast
  have "options_value od c s = spec_merged_value ?given c (Name s)" for c s
    using merged_value [OF wf, where entry = None and c = c and k = "Name s"]
      wrap_options_value [OF w de, of c s]
    by (simp add: e split: option.splits)
  with o show ?thesis by blast
qed


lemma keys_dict_set: "fst ` set (dict_set d k v) = insert k (fst ` set d)"
  by (simp add: dict_set_def dom_update)

lemma finalize_keys:
  "finalize out ws tbl = Inr (out1, ws1) \<Longrightarrow>
     fst ` set out1 = fst ` set out \<union> (\<lambda>q. fst (apply_deprecations q)) ` fst ` set tbl"
proof (induction tbl arbitrary: out ws)
  case Nil
  then show ?case by simp
next
  case (Cons qo tbl)
  obtain q opts where qo: "qo = (q, opts)" by (cases qo)
  obtain q1 w1 where ad: "apply_deprecations q = (q1, w1)" by (cases "apply_deprecations q")
  from Cons.prems(1) qo ad obtain wrapped where
    rest: "finalize (dict_set out q1 wrapped) (ws @ w1) tbl = Inr (out1, ws1)"
    by (cases "wrap_options opts") (auto simp: bind_err_def)
  from Cons.IH [OF rest] show ?case
    by (auto simp: qo ad keys_dict_set)
qed

lemma parse_tables:
  assumes "OptsSpec_parse scanString parseString abort ev line = Inr (out, ws)"
      and "parseString line = Inr groups"
  obtains tbl w where
    "parse_loop abort ev [] [] (group_paths_without_options groups) = Inr (tbl, w)"
    "finalize [] w tbl = Inr (out, ws)"
  using assms
  by (cases "check_scan line (scanString line)";
      cases "parse_loop abort ev [] [] (group_paths_without_options groups)")
     (auto simp: OptsSpec_parse_def bind_err_def)

lemma parse_keys:
  assumes "OptsSpec_parse scanString parseString abort ev line = Inr (out, ws)"
      and "parseString line = Inr groups"
  shows "fst ` set out = (\<lambda>q. fst (apply_deprecations q)) ` pathspec ` set groups"
proof -
  from parse_tables [OF assms] obtain tbl w where
    pl: "parse_loop abort ev [] [] (group_paths_without_options groups) = Inr (tbl, w)"
    and fin: "finalize [] w tbl = Inr (out, ws)"
    by blast
  have "fst ` set tbl = pathspec ` set groups"
    using parse_loop_keys [OF pl] group_paths_paths [of "[]" groups]
    by (simp add: group_paths_without_options_def)
  with finalize_keys [OF fin] show ?thesis by simp
qed


lemma group_options_categories:
  assumes "group_options abort ev (Some gr) = Inr (opts, w)"
  shows "dict_get opts ''norm'' =
           (case process_normalization (Some gr) of
              Inr (Some n) \<Rightarrow> Some (map (\<lambda>(k, b). (Name k, PyBool b)) n)
            | Inr None \<Rightarrow> None
            | Inl e \<Rightarrow> None)"
    and "dict_get opts ''plot'' =
           (case plot_options gr of
              None \<Rightarrow> None
            | Some t \<Rightarrow> (case todict abort ev (Some t) ''brackets'' of
                           Inr (d, w1) \<Rightarrow> Some (alias_keys d)
                         | Inl e \<Rightarrow> None))"
    and "dict_get opts ''style'' =
           (case style_options gr of
              None \<Rightarrow> None
            | Some t \<Rightarrow> (case todict abort ev (Some t) ''parens'' of
                           Inr (d, w1) \<Rightarrow> Some (alias_keys d)
                         | Inl e \<Rightarrow> None))"
  using assms unfolding group_options_def bind_err_def plot_of_def style_of_def
  by (auto simp: Let_def dict_get_set dict_get_Nil
      split: option.splits sum.splits prod.splits)

lemma group_options_keys:
  assumes "group_options abort ev g = Inr (opts, w)"
  shows "fst ` set opts \<subseteq> {''norm'', ''plot'', ''style''}"
proof -
  have "dict_get opts k = None" if "k \<noteq> ''norm''" "k \<noteq> ''plot''" "k \<noteq> ''style''" for k
    using assms that unfolding group_options_def bind_err_def
    by (auto simp: Let_def dict_get_set dict_get_Nil
        split: option.splits sum.splits prod.splits)
  then show ?thesis
    unfolding dict_get_None_iff by blast
qed

subsection \<open>Merging option dictionaries\<close>

lemma group_options_style_only:
  assumes "norm_options g = None" "plot_options g = None" "style_options g = Some s"
      and "todict abort ev (Some s) ''parens'' = Inr (d, w)"
  shows "group_options abort ev (Some g) = Inr ([(''style'', alias_keys d)], w)"
  using assms
  by (simp add: group_options_def process_normalization_def norm_of_def plot_of_def
      style_of_def bind_err_def dict_set_def)

lemma todict_keyword:
  assumes "CHR ''='' \<in> set s" "strip s \<noteq> '',''" "strip_commas s = Inr s" "repair s = s"
      and "ev (''dict('' @ s @ '')'') = Updates pairs True"
  shows "todict abort ev (Some [Str s]) mode = Inr (dict_update [] pairs, [])"
  using assms
  by (simp add: todict_def collect_tokens_def bind_err_def group_tokens_def)

lemma apply_deprecations_names:
  "apply_deprecations ''Curve'' = (''Curve'', [])"
  "apply_deprecations ''Image'' = (''Image'', [])"
  "apply_deprecations ''Points'' = (''Points'', [])"
  "apply_deprecations ''GridImage'' = (''Image'', [Element_deprecated ''GridImage'' ''Image''])"
  by (simp_all add: apply_deprecations_def deprecations_def)

lemma repair_plain:
  "repair ''x=1'' = ''x=1''" "repair ''y=1'' = ''y=1''" "repair ''y=2'' = ''y=2''"
  "repair ''z=3'' = ''z=3''" "repair ''c=1'' = ''c=1''"
  by (simp_all add: repair_def fixups_def replace.simps)

lemma strip_commas_plain:
  "strip_commas ''x=1'' = Inr ''x=1''" "strip_commas ''y=1'' = Inr ''y=1''"
  "strip_commas ''y=2'' = Inr ''y=2''" "strip_commas ''z=3'' = Inr ''z=3''"
  "strip_commas ''c=1'' = Inr ''c=1''"
  by (simp_all add: strip_commas_def)

lemma strip_plain:
  "strip ''x=1'' = ''x=1''" "strip ''y=1'' = ''y=1''" "strip ''y=2'' = ''y=2''"
  "strip ''z=3'' = ''z=3''" "strip ''c=1'' = ''c=1''"
  by (simp_all add: strip_def isspace_def)

lemma alias_keys_plain:
  "alias_keys [(Name ''x'', v)] = [(Name ''x'', v)]"
  "alias_keys [(Name ''y'', v)] = [(Name ''y'', v)]"
  "alias_keys [(Name ''z'', v)] = [(Name ''z'', v)]"
  "alias_keys [(Name ''c'', v)] = [(Name ''c'', v)]"
  "alias_keys [(Name ''x'', v), (Name ''y'', u)] = [(Name ''x'', v), (Name ''y'', u)]"
  by (simp_all add: alias_keys_def alias_of_def aliases_def dict_get_def dict_set_def)




subsection \<open>Grouping paths without options\<close>

lemma spec_merged_value_append:
  "spec_merged_value (xs @ ys) c k =
     (case spec_merged_value ys c k of
        Some v \<Rightarrow> Some v
      | None \<Rightarrow> spec_merged_value xs c k)"
  by (induction xs) (auto split: option.splits)

lemma options_given_absent:
  "\<forall>(qs, h)\<in>set ys. p \<notin> set qs \<Longrightarrow> options_given abort ev p ys = []"
  by (induction ys) (auto simp: options_given_Nil options_given_Cons)

lemma parse_yield:
  assumes parse: "OptsSpec_parse scanString parseString abort ev line = Inr (out, ws)"
      and groups: "parseString line = Inr groups"
      and yields: "group_paths_without_options groups = pre @ (ps, g) # post"
      and p: "p \<in> set ps"
      and coll: "\<forall>q\<in>pathspec ` set groups.
                   fst (apply_deprecations q) = fst (apply_deprecations p) \<longrightarrow> q = p"
  shows "\<exists>opts w od.
           group_options abort ev g = Inr (opts, w)
         \<and> dict_get out (fst (apply_deprecations p)) = Some od
         \<and> (\<forall>c s v. option_value opts c (Name s) = Some v
                    \<and> spec_merged_value (options_given abort ev p post) c (Name s) = None
                  \<longrightarrow> options_value od c s = Some v)
         \<and> ((\<forall>(qs, h)\<in>set (pre @ post). p \<notin> set qs) \<longrightarrow> wrap_options opts = Inr od)"
proof -
  from parse_tables [OF parse groups] obtain tbl w0 where
    pl: "parse_loop abort ev [] [] (group_paths_without_options groups) = Inr (tbl, w0)"
    by blast
  from parse_loop_warnings [OF pl] yields
  obtain opts w where go: "group_options abort ev g = Inr (opts, w)"
    by auto
  have "\<Union> (set ` fst ` set (group_paths_without_options groups)) = pathspec ` set groups"
    unfolding group_paths_without_options_def using group_paths_paths [of "[]" groups] by simp
  with yields p have pin: "p \<in> pathspec ` set groups"
    by auto
  have given: "options_given abort ev p (group_paths_without_options groups)
                 = options_given abort ev p pre @ [opts] @ options_given abort ev p post"
    unfolding yields options_given_append options_given_Inr [OF go] using p by simp
  from parse_entry [OF parse groups pin coll] obtain entry od where
    e: "foldl (\<lambda>a opts. Some (merge_options (case a of None \<Rightarrow> [] | Some old \<Rightarrow> old) opts))
             None (options_given abort ev p (group_paths_without_options groups)) = Some entry"
    and w: "wrap_options entry = Inr od"
    and o: "dict_get out (fst (apply_deprecations p)) = Some od"
    by blast
  from parse_value [OF parse groups pin coll] o
  have mv: "options_value od c s =
              spec_merged_value (options_given abort ev p (group_paths_without_options groups))
                c (Name s)" for c s
    by auto
  have last: "options_value od c s = Some v"
    if "option_value opts c (Name s) = Some v"
       "spec_merged_value (options_given abort ev p post) c (Name s) = None" for c s v
    using that by (simp add: mv given spec_merged_value_append)
  have only: "wrap_options opts = Inr od" if "\<forall>(qs, h)\<in>set (pre @ post). p \<notin> set qs"
  proof -
    from that have "options_given abort ev p pre = []" "options_given abort ev p post = []"
      by (auto intro!: options_given_absent)
    with e given have "entry = merge_options [] opts" by simp
    moreover from group_options_wf [OF go] have "merge_options [] opts = opts"
      by (intro merge_options_empty) (simp_all add: wf_opts_def)
    ultimately show ?thesis using w by simp
  qed
  from go o last only show ?thesis by blast
qed

lemma parse_single_bare:
  assumes "check_scan line (scanString line) = Inr ()"
      and "parseString line = Inr [g0]" and "\<not> has_options g0"
  shows "OptsSpec_parse scanString parseString abort ev line =
           Inr ([(fst (apply_deprecations (pathspec g0)), [])],
                snd (apply_deprecations (pathspec g0)))"
  using assms
  by (simp add: OptsSpec_parse_def bind_err_def group_paths_without_options_def set_add_def
      group_options_None merge_options_def dict_get_def dict_set_def wrap_options_def
      split: prod.splits)

text \<open>
  Claim C3, as stated, fails for a path the deprecation table rewrites. The line
  \<^verbatim>\<open>GridImage\<close>, a single bare path, parses to \<^verbatim>\<open>{'Image': {}}\<close> and a warning,
  not to that path mapped to the empty dictionary. In the line
  \<^verbatim>\<open>GridImage (x=1) Image\<close> the path \<^verbatim>\<open>GridImage\<close> is the current path of a group
  with options, yet the result holds these options under no name: the entry of the
  trailing path \<^verbatim>\<open>Image\<close> replaces the rewritten one.
\<close>

theorem group_paths_deprecated_counterexample:
  "OptsSpec_parse (\<lambda>l. [((), 0, 9)])
      (\<lambda>l. Inr [\<lparr>pathspec = ''GridImage'', norm_options = None, plot_options = None,
                  style_options = None\<rparr>])
      False (\<lambda>e. (Raises :: (unit, int) evaluated)) ''GridImage''
     = Inr ([(''Image'', [])], [Element_deprecated ''GridImage'' ''Image''])
   \<and> OptsSpec_parse (\<lambda>l. [((), 0, 21)])
      (\<lambda>l. Inr [\<lparr>pathspec = ''GridImage'', norm_options = None, plot_options = None,
                  style_options = Some [Str ''x=1'']\<rparr>,
                \<lparr>pathspec = ''Image'', norm_options = None, plot_options = None,
                  style_options = None\<rparr>])
      False
      (\<lambda>e. if e = ''dict(x=1)'' then Updates [(Name ''x'', PyObj (1::int))] True
           else (Raises :: (unit, int) evaluated))
      ''GridImage (x=1) Image''
     = Inr ([(''Image'', [])], [Element_deprecated ''GridImage'' ''Image''])"
proof -
  let ?g0 = "\<lparr>pathspec = ''GridImage'', norm_options = None, plot_options = None,
                  style_options = None\<rparr>"
  let ?g1 = "\<lparr>pathspec = ''GridImage'', norm_options = None, plot_options = None,
                  style_options = Some [Str ''x=1'']\<rparr>"
  let ?g2 = "\<lparr>pathspec = ''Image'', norm_options = None, plot_options = None,
                  style_options = None\<rparr>"
  let ?noeval = "\<lambda>e :: string. (Raises :: (unit, int) evaluated)"
  let ?ev = "\<lambda>e. if e = ''dict(x=1)'' then Updates [(Name ''x'', PyObj (1::int))] True
           else (Raises :: (unit, int) evaluated)"
  have s9: "check_scan ''GridImage'' [((), 0 :: nat, 9 :: nat)] = Inr ()"
    by (simp add: check_scan_def)
  have "\<not> has_options ?g0"
    by (simp add: has_options_def)
  from parse_single_bare [of "''GridImage''" "\<lambda>l. [((), 0, 9)]" "\<lambda>l. Inr [?g0]" ?g0 False ?noeval,
      OF _ _ this] s9
  have 1: "OptsSpec_parse (\<lambda>l. [((), 0, 9)]) (\<lambda>l. Inr [?g0]) False ?noeval ''GridImage''
     = Inr ([(''Image'', [])], [Element_deprecated ''GridImage'' ''Image''])"
    by (simp add: apply_deprecations_names)
  have s21: "check_scan ''GridImage (x=1) Image'' [((), 0 :: nat, 21 :: nat)] = Inr ()"
    by (simp add: check_scan_def)
  have gp: "group_paths_without_options [?g1, ?g2]
              = [([''GridImage''], Some ?g1), ([''Image''], None)]"
    by (simp add: group_paths_without_options_def has_options_def set_add_def)
  have t1: "todict False ?ev (Some [Str ''x=1'']) ''parens'' = Inr ([(Name ''x'', PyObj 1)], [])"
    using todict_keyword [of "''x=1''" ?ev "[(Name ''x'', PyObj 1)]" False "''parens''"]
    by (simp add: strip_plain strip_commas_plain repair_plain dict_set_def)
  have o1: "group_options False ?ev (Some ?g1) = Inr ([(''style'', [(Name ''x'', PyObj 1)])], [])"
    using group_options_style_only [of ?g1 "[Str ''x=1'']" False ?ev, OF _ _ _ t1]
    by (simp add: alias_keys_plain)
  have pl: "parse_loop False ?ev [] [] [([''GridImage''], Some ?g1), ([''Image''], None)]
            = Inr ([(''GridImage'', [(''style'', [(Name ''x'', PyObj 1)])]), (''Image'', [])], [])"
    by (simp add: o1 group_options_None bind_err_def merge_options_def merge_step_def
        dict_contains_def dict_get_def dict_set_def)
  have fin: "finalize [] []
               [(''GridImage'', [(''style'', [((Name ''x'') :: unit pykey, PyObj (1::int))])]),
                (''Image'', [])]
             = Inr ([(''Image'', [])], [Element_deprecated ''GridImage'' ''Image''])"
    by (simp add: apply_deprecations_def deprecations_def wrap_options_def bind_err_def
        dict_set_def)
  have 2: "OptsSpec_parse (\<lambda>l. [((), 0, 21)]) (\<lambda>l. Inr [?g1, ?g2]) False ?ev
             ''GridImage (x=1) Image''
     = Inr ([(''Image'', [])], [Element_deprecated ''GridImage'' ''Image''])"
    by (simp add: OptsSpec_parse_def s21 gp pl fin bind_err_def
        del: parse_loop.simps finalize.simps)
  show ?thesis by (rule conjI [OF 1 2])
qed

text \<open>
  Claim C3, amended. Groups without options before a group \<open>g\<close> with options are
  yielded together with it: one pair of the set of their paths and \<open>g\<close>, after which
  the pending set is empty again. Groups without options at the end of the line are
  yielded as one pair of their paths and the empty dictionary, whose options are empty;
  an empty line of groups yields nothing. The options resolved for a group are the
  normalization under \<^verbatim>\<open>norm\<close>, the keywords of the plot block under \<^verbatim>\<open>plot\<close> and
  those of the style block under \<^verbatim>\<open>style\<close>, aliases applied, and nothing else.
  Whenever \<^verbatim>\<open>OptsSpec.parse\<close> returns, its keys are the paths of the line as the
  deprecation table rewrites them; and for a yielded pair and a path \<open>p\<close> of its set
  that no other path of the line shares its rewritten name with, the group of the pair
  has been resolved and the result has, under the rewritten name of \<open>p\<close>, every option
  of that group to which no later pair holding \<open>p\<close> gives a value, and exactly the
  options of that group if no other pair holds \<open>p\<close>. A line that is a single bare
  path parses to the rewritten path mapped to the empty dictionary.
\<close>

theorem group_paths_share_options:
  "((\<forall>b\<in>set bare. \<not> has_options b) \<and> has_options g \<longrightarrow>
      (\<exists>ps. group_paths_without_options (bare @ g # rest)
               = (ps, Some g) # group_paths_without_options rest
          \<and> set ps = pathspec ` set (bare @ [g]) \<and> distinct ps))
   \<and> ((gs = [] \<or> has_options (last gs)) \<and> bare \<noteq> [] \<and> (\<forall>b\<in>set bare. \<not> has_options b) \<longrightarrow>
        (\<exists>ps. group_paths_without_options (gs @ bare)
                 = group_paths_without_options gs @ [(ps, None)]
            \<and> set ps = pathspec ` set bare \<and> distinct ps)
        \<and> group_options abort ev None = Inr ([], []))
   \<and> group_paths_without_options [] = []
   \<and> (group_options abort ev (Some gr) = Inr (opts0, w0) \<longrightarrow>
        dict_get opts0 ''norm'' =
           (case process_normalization (Some gr) of
              Inr (Some n) \<Rightarrow> Some (map (\<lambda>(k, b). (Name k, PyBool b)) n)
            | Inr None \<Rightarrow> None
            | Inl e \<Rightarrow> None)
        \<and> dict_get opts0 ''plot'' =
           (case plot_options gr of
              None \<Rightarrow> None
            | Some t \<Rightarrow> (case todict abort ev (Some t) ''brackets'' of
                           Inr (d, w1) \<Rightarrow> Some (alias_keys d)
                         | Inl e \<Rightarrow> None))
        \<and> dict_get opts0 ''style'' =
           (case style_options gr of
              None \<Rightarrow> None
            | Some t \<Rightarrow> (case todict abort ev (Some t) ''parens'' of
                           Inr (d, w1) \<Rightarrow> Some (alias_keys d)
                         | Inl e \<Rightarrow> None))
        \<and> fst ` set opts0 \<subseteq> {''norm'', ''plot'', ''style''})
   \<and> (OptsSpec_parse scanString parseString abort ev line = Inr (out, ws)
        \<and> parseString line = Inr groups \<longrightarrow>
        fst ` set out = (\<lambda>q. fst (apply_deprecations q)) ` pathspec ` set groups)
   \<and> (OptsSpec_parse scanString parseString abort ev line = Inr (out, ws)
        \<and> parseString line = Inr groups
        \<and> group_paths_without_options groups = pre @ (pathspecs, yg) # post
        \<and> p \<in> set pathspecs
        \<and> (\<forall>q\<in>pathspec ` set groups.
              fst (apply_deprecations q) = fst (apply_deprecations p) \<longrightarrow> q = p) \<longrightarrow>
        (\<exists>opts w od.
           group_options abort ev yg = Inr (opts, w)
         \<and> dict_get out (fst (apply_deprecations p)) = Some od
         \<and> (\<forall>c s v. option_value opts c (Name s) = Some v
                    \<and> spec_merged_value (options_given abort ev p post) c (Name s) = None
                  \<longrightarrow> options_value od c s = Some v)
         \<and> ((\<forall>(qs, h)\<in>set (pre @ post). p \<notin> set qs) \<longrightarrow> wrap_options opts = Inr od)))
   \<and> (check_scan line (scanString line) = Inr ()
        \<and> parseString line = Inr [g0] \<and> \<not> has_options g0 \<longrightarrow>
        OptsSpec_parse scanString parseString abort ev line =
          Inr ([(fst (apply_deprecations (pathspec g0)), [])],
               snd (apply_deprecations (pathspec g0))))"
proof (intro conjI impI)
  assume a: "(\<forall>b\<in>set bare. \<not> has_options b) \<and> has_options g"
  let ?ps = "foldl (\<lambda>a b. set_add (pathspec b) a) [] (bare @ [g])"
  from a have "group_paths_without_options (bare @ g # rest)
               = (?ps, Some g) # group_paths_without_options rest"
    by (simp add: group_paths_without_options_def group_paths_pending)
  moreover have "set ?ps = pathspec ` set (bare @ [g])"
    using set_pending [of "[]" "bare @ [g]"] by simp
  moreover have "distinct ?ps"
    by (rule distinct_pending) simp
  ultimately show "\<exists>ps. group_paths_without_options (bare @ g # rest)
               = (ps, Some g) # group_paths_without_options rest
          \<and> set ps = pathspec ` set (bare @ [g]) \<and> distinct ps"
    by blast
next
  assume a: "(gs = [] \<or> has_options (last gs)) \<and> bare \<noteq> [] \<and> (\<forall>b\<in>set bare. \<not> has_options b)"
  let ?ps = "foldl (\<lambda>a b. set_add (pathspec b) a) [] bare"
  have s: "set ?ps = pathspec ` set bare"
    using set_pending [of "[]" bare] by simp
  with a have ne: "?ps \<noteq> []" by auto
  from a have t: "group_paths [] bare = [(?ps, None)]"
    using group_paths_trailing [of bare "[]"] ne by simp
  have "group_paths [] (gs @ bare) = group_paths [] gs @ group_paths [] bare"
  proof (cases "gs = []")
    case True
    then show ?thesis by simp
  next
    case False
    with a have "has_options (last gs)" by simp
    from group_paths_append [OF False this] show ?thesis .
  qed
  with t have "group_paths_without_options (gs @ bare)
                 = group_paths_without_options gs @ [(?ps, None)]"
    by (simp add: group_paths_without_options_def)
  moreover have "distinct ?ps"
    by (rule distinct_pending) simp
  ultimately show "\<exists>ps. group_paths_without_options (gs @ bare)
                 = group_paths_without_options gs @ [(ps, None)]
            \<and> set ps = pathspec ` set bare \<and> distinct ps"
    using s by blast
next
  show "group_options abort ev None = Inr ([], [])"
    by (rule group_options_None)
next
  show "group_paths_without_options [] = []"
    by (simp add: group_paths_without_options_def)
next
  assume "group_options abort ev (Some gr) = Inr (opts0, w0)"
  then show "dict_get opts0 ''norm'' =
           (case process_normalization (Some gr) of
              Inr (Some n) \<Rightarrow> Some (map (\<lambda>(k, b). (Name k, PyBool b)) n)
            | Inr None \<Rightarrow> None
            | Inl e \<Rightarrow> None)"
    by (rule group_options_categories(1))
next
  assume "group_options abort ev (Some gr) = Inr (opts0, w0)"
  then show "dict_get opts0 ''plot'' =
           (case plot_options gr of
              None \<Rightarrow> None
            | Some t \<Rightarrow> (case todict abort ev (Some t) ''brackets'' of
                           Inr (d, w1) \<Rightarrow> Some (alias_keys d)
                         | Inl e \<Rightarrow> None))"
    by (rule group_options_categories(2))
next
  assume "group_options abort ev (Some gr) = Inr (opts0, w0)"
  then show "dict_get opts0 ''style'' =
           (case style_options gr of
              None \<Rightarrow> None
            | Some t \<Rightarrow> (case todict abort ev (Some t) ''parens'' of
                           Inr (d, w1) \<Rightarrow> Some (alias_keys d)
                         | Inl e \<Rightarrow> None))"
    by (rule group_options_categories(3))
next
  assume "group_options abort ev (Some gr) = Inr (opts0, w0)"
  then show "fst ` set opts0 \<subseteq> {''norm'', ''plot'', ''style''}"
    by (rule group_options_keys)
next
  assume "OptsSpec_parse scanString parseString abort ev line = Inr (out, ws)
        \<and> parseString line = Inr groups"
  then show "fst ` set out = (\<lambda>q. fst (apply_deprecations q)) ` pathspec ` set groups"
    by (intro parse_keys) blast+
next
  assume h: "OptsSpec_parse scanString parseString abort ev line = Inr (out, ws)
        \<and> parseString line = Inr groups
        \<and> group_paths_without_options groups = pre @ (pathspecs, yg) # post
        \<and> p \<in> set pathspecs
        \<and> (\<forall>q\<in>pathspec ` set groups.
              fst (apply_deprecations q) = fst (apply_deprecations p) \<longrightarrow> q = p)"
  then have h1: "OptsSpec_parse scanString parseString abort ev line = Inr (out, ws)"
    and h2: "parseString line = Inr groups"
    and h3: "group_paths_without_options groups = pre @ (pathspecs, yg) # post"
    and h4: "p \<in> set pathspecs"
    and h5: "\<forall>q\<in>pathspec ` set groups.
              fst (apply_deprecations q) = fst (apply_deprecations p) \<longrightarrow> q = p"
    by blast+
  show "\<exists>opts w od.
           group_options abort ev yg = Inr (opts, w)
         \<and> dict_get out (fst (apply_deprecations p)) = Some od
         \<and> (\<forall>c s v. option_value opts c (Name s) = Some v
                    \<and> spec_merged_value (options_given abort ev p post) c (Name s) = None
                  \<longrightarrow> options_value od c s = Some v)
         \<and> ((\<forall>(qs, h)\<in>set (pre @ post). p \<notin> set qs) \<longrightarrow> wrap_options opts = Inr od)"
    by (rule parse_yield [OF h1 h2 h3 h4 h5])
next
  assume "check_scan line (scanString line) = Inr ()
        \<and> parseString line = Inr [g0] \<and> \<not> has_options g0"
  then show "OptsSpec_parse scanString parseString abort ev line =
          Inr ([(fst (apply_deprecations (pathspec g0)), [])],
               snd (apply_deprecations (pathspec g0)))"
    by (intro parse_single_bare) blast+
qed

text \<open>
  The theorem at the line \<^verbatim>\<open>Curve\<close> and at the line
  \<^verbatim>\<open>Image Curve [show_xaxis=0] (c=1) Points\<close>.
\<close>

theorem group_paths_share_options_witness:
  "OptsSpec_parse (\<lambda>l. [((), 0, 5)])
      (\<lambda>l. Inr [\<lparr>pathspec = ''Curve'', norm_options = None, plot_options = None,
                  style_options = None\<rparr>])
      False (\<lambda>e. (Raises :: (unit, int) evaluated)) ''Curve''
     = Inr ([(''Curve'', [])], [])
   \<and> (\<exists>ps. group_paths_without_options
              [\<lparr>pathspec = ''Image'', norm_options = None, plot_options = None,
                 style_options = None\<rparr>,
               \<lparr>pathspec = ''Curve'', norm_options = None,
                 plot_options = Some [Str ''show_xaxis=0''],
                 style_options = Some [Str ''c=1'']\<rparr>,
               \<lparr>pathspec = ''Points'', norm_options = None, plot_options = None,
                 style_options = None\<rparr>]
            = [(ps, Some \<lparr>pathspec = ''Curve'', norm_options = None,
                          plot_options = Some [Str ''show_xaxis=0''],
                          style_options = Some [Str ''c=1'']\<rparr>),
               ([''Points''], None)]
          \<and> set ps = {''Image'', ''Curve''})
   \<and> group_options False
        (\<lambda>e. if e = ''dict(show_xaxis=0)'' then Updates [(Name ''show_xaxis'', PyObj (0::int))] True
             else if e = ''dict(c=1)'' then Updates [(Name ''c'', PyObj 1)] True
             else (Raises :: (unit, int) evaluated))
        (Some \<lparr>pathspec = ''Curve'', norm_options = None,
               plot_options = Some [Str ''show_xaxis=0''],
               style_options = Some [Str ''c=1'']\<rparr>)
      = Inr ([(''plot'', [(Name ''xaxis'', PyObj 0)]), (''style'', [(Name ''c'', PyObj 1)])], [])
   \<and> (\<exists>out. OptsSpec_parse (\<lambda>l. [((), 0, 39)])
                (\<lambda>l. Inr [\<lparr>pathspec = ''Image'', norm_options = None, plot_options = None,
                            style_options = None\<rparr>,
                          \<lparr>pathspec = ''Curve'', norm_options = None,
                            plot_options = Some [Str ''show_xaxis=0''],
                            style_options = Some [Str ''c=1'']\<rparr>,
                          \<lparr>pathspec = ''Points'', norm_options = None, plot_options = None,
                            style_options = None\<rparr>])
                False
                (\<lambda>e. if e = ''dict(show_xaxis=0)''
                     then Updates [(Name ''show_xaxis'', PyObj (0::int))] True
                     else if e = ''dict(c=1)'' then Updates [(Name ''c'', PyObj 1)] True
                     else (Raises :: (unit, int) evaluated))
                ''Image Curve [show_xaxis=0] (c=1) Points''
              = Inr (out, [])
          \<and> fst ` set out = {''Image'', ''Curve'', ''Points''}
          \<and> dict_get out ''Image''
              = Some [(''plot'', Options [(''xaxis'', PyObj 0)]),
                      (''style'', Options [(''c'', PyObj 1)])]
          \<and> dict_get out ''Curve''
              = Some [(''plot'', Options [(''xaxis'', PyObj 0)]),
                      (''style'', Options [(''c'', PyObj 1)])]
          \<and> dict_get out ''Points'' = Some [])"
proof -
  let ?curve = "\<lparr>pathspec = ''Curve'', norm_options = None, plot_options = None,
                  style_options = None\<rparr>"
  let ?i = "\<lparr>pathspec = ''Image'', norm_options = None, plot_options = None,
                 style_options = None\<rparr>"
  let ?c = "\<lparr>pathspec = ''Curve'', norm_options = None,
                 plot_options = Some [Str ''show_xaxis=0''],
                 style_options = Some [Str ''c=1'']\<rparr>"
  let ?pt = "\<lparr>pathspec = ''Points'', norm_options = None, plot_options = None,
                 style_options = None\<rparr>"
  let ?noeval = "\<lambda>e :: string. (Raises :: (unit, int) evaluated)"
  let ?ev = "\<lambda>e. if e = ''dict(show_xaxis=0)''
                     then Updates [(Name ''show_xaxis'', PyObj (0::int))] True
                     else if e = ''dict(c=1)'' then Updates [(Name ''c'', PyObj 1)] True
                     else (Raises :: (unit, int) evaluated)"
  let ?line = "''Image Curve [show_xaxis=0] (c=1) Points''"
  let ?opts = "[(''plot'', [((Name ''xaxis'') :: unit pykey, PyObj (0::int))]),
                (''style'', [(Name ''c'', PyObj 1)])]"
  let ?od = "[(''plot'', Options [(''xaxis'', PyObj (0::int))]),
              (''style'', Options [(''c'', PyObj 1)])]"
  let ?out = "[(''Image'', ?od), (''Curve'', ?od), (''Points'', [])]"
  note thm0 = group_paths_share_options [where abort = False]
  have s5: "check_scan ''Curve'' [((), 0 :: nat, 5 :: nat)] = Inr ()"
    by (simp add: check_scan_def)
  have h7: "check_scan ''Curve'' [((), 0, 5)] = Inr ()
        \<and> Inr [?curve] = (Inr [?curve] :: error + group list) \<and> \<not> has_options ?curve"
    using s5 by (simp add: has_options_def)
  from thm0 [where line = "''Curve''" and scanString = "\<lambda>l. [((), 0, 5)]"
      and parseString = "\<lambda>l. Inr [?curve]" and ?g0.0 = ?curve and ev = ?noeval,
      THEN conjunct2, THEN conjunct2, THEN conjunct2, THEN conjunct2, THEN conjunct2,
      THEN conjunct2, THEN mp, OF h7]
  have 1: "OptsSpec_parse (\<lambda>l. [((), 0, 5)]) (\<lambda>l. Inr [?curve]) False ?noeval ''Curve''
     = Inr ([(''Curve'', [])], [])"
    by (simp add: apply_deprecations_names)
  have h1: "(\<forall>b\<in>set [?i]. \<not> has_options b) \<and> has_options ?c"
    by (simp add: has_options_def)
  from thm0 [where bare = "[?i]" and g = ?c and rest = "[?pt]" and ev = ?noeval,
      THEN conjunct1, THEN mp, OF h1]
  have 2: "\<exists>ps. group_paths_without_options [?i, ?c, ?pt] = [(ps, Some ?c), ([''Points''], None)]
          \<and> set ps = {''Image'', ''Curve''}"
    by (auto simp: group_paths_without_options_def has_options_def set_add_def)
  have gp: "group_paths_without_options [?i, ?c, ?pt]
              = [] @ ([''Image'', ''Curve''], Some ?c) # [([''Points''], None)]"
    by (simp add: group_paths_without_options_def has_options_def set_add_def)
  have gq: "group_paths_without_options [?i, ?c, ?pt]
              = [([''Image'', ''Curve''], Some ?c)] @ ([''Points''], None) # []"
    by (simp add: group_paths_without_options_def has_options_def set_add_def)
  have k: "strip ''show_xaxis=0'' = ''show_xaxis=0''"
       "strip_commas ''show_xaxis=0'' = Inr ''show_xaxis=0''"
       "repair ''show_xaxis=0'' = ''show_xaxis=0''"
    by (simp_all add: strip_def isspace_def strip_commas_def repair_def fixups_def replace.simps)
  have tp: "todict False ?ev (Some [Str ''show_xaxis=0'']) ''brackets''
              = Inr ([(Name ''show_xaxis'', PyObj 0)], [])"
    using todict_keyword [of "''show_xaxis=0''" ?ev "[(Name ''show_xaxis'', PyObj 0)]" False
        "''brackets''"]
    by (simp add: k dict_set_def)
  have ts: "todict False ?ev (Some [Str ''c=1'']) ''parens'' = Inr ([(Name ''c'', PyObj 1)], [])"
    using todict_keyword [of "''c=1''" ?ev "[(Name ''c'', PyObj 1)]" False "''parens''"]
    by (simp add: strip_plain strip_commas_plain repair_plain dict_set_def)
  have al: "alias_keys [((Name ''show_xaxis'') :: unit pykey, PyObj (0::int))]
              = [(Name ''xaxis'', PyObj 0)]"
    by (simp add: alias_keys_def alias_of_def aliases_def dict_get_def dict_set_def)
  have h4: "group_options False ?ev (Some ?c) = Inr (?opts, [])"
    by (simp add: group_options_def process_normalization_def norm_of_def plot_of_def
        style_of_def bind_err_def tp ts al alias_keys_plain dict_set_def)
  from thm0 [where gr = ?c and ev = ?ev and ?opts0.0 = ?opts and ?w0.0 = "[]",
      THEN conjunct2, THEN conjunct2, THEN conjunct2, THEN conjunct1, THEN mp, OF h4]
  have cat: "dict_get ?opts ''plot'' = Some (alias_keys [(Name ''show_xaxis'', PyObj 0)])
           \<and> dict_get ?opts ''style'' = Some (alias_keys [(Name ''c'', PyObj 1)])
           \<and> dict_get ?opts ''norm'' = None"
    by (simp add: tp ts process_normalization_def norm_of_def)
  have s: "check_scan ?line [((), 0 :: nat, 39 :: nat)] = Inr ()"
    by (simp add: check_scan_def)
  have pl: "parse_loop False ?ev [] [] ([] @ ([''Image'', ''Curve''], Some ?c) # [([''Points''], None)])
            = Inr ([(''Image'', ?opts), (''Curve'', ?opts), (''Points'', [])], [])"
    by (simp add: h4 group_options_None bind_err_def merge_options_def merge_step_def
        dict_contains_def dict_get_def dict_set_def)
  have fin: "finalize [] [] [(''Image'', ?opts), (''Curve'', ?opts), (''Points'', [])]
             = Inr (?out, [])"
    by (simp add: apply_deprecations_def deprecations_def wrap_options_def bind_err_def
        dict_set_def)
  have parse: "OptsSpec_parse (\<lambda>l. [((), 0, 39)]) (\<lambda>l. Inr [?i, ?c, ?pt]) False ?ev ?line
                 = Inr (?out, [])"
    by (simp add: OptsSpec_parse_def s gp pl fin bind_err_def
        del: parse_loop.simps finalize.simps append.simps)
  note t = thm0 [where ev = ?ev and line = ?line and scanString = "\<lambda>l. [((), 0, 39)]"
      and parseString = "\<lambda>l. Inr [?i, ?c, ?pt]" and groups = "[?i, ?c, ?pt]"
      and out = ?out and ws = "[]"]
  have h5: "OptsSpec_parse (\<lambda>l. [((), 0, 39)]) (\<lambda>l. Inr [?i, ?c, ?pt]) False ?ev ?line
              = Inr (?out, [])
        \<and> Inr [?i, ?c, ?pt] = (Inr [?i, ?c, ?pt] :: error + group list)"
    using parse by simp
  from t [THEN conjunct2, THEN conjunct2, THEN conjunct2, THEN conjunct2, THEN conjunct1,
      THEN mp, OF h5]
  have keys: "fst ` set ?out = {''Image'', ''Curve'', ''Points''}"
    by (simp add: apply_deprecations_names)
  have wo: "wrap_options ?opts = Inr ?od"
    by (simp add: wrap_options_def bind_err_def dict_set_def)
  have h6: "OptsSpec_parse (\<lambda>l. [((), 0, 39)]) (\<lambda>l. Inr [?i, ?c, ?pt]) False ?ev ?line
              = Inr (?out, [])
        \<and> Inr [?i, ?c, ?pt] = (Inr [?i, ?c, ?pt] :: error + group list)
        \<and> group_paths_without_options [?i, ?c, ?pt]
            = [] @ ([''Image'', ''Curve''], Some ?c) # [([''Points''], None)]
        \<and> q \<in> set [''Image'', ''Curve'']
        \<and> (\<forall>r\<in>pathspec ` set [?i, ?c, ?pt].
              fst (apply_deprecations r) = fst (apply_deprecations q) \<longrightarrow> r = q)"
    if "q = ''Image'' \<or> q = ''Curve''" for q
    using parse gp that by (auto simp: apply_deprecations_names)
  have first: "dict_get ?out q = Some ?od" if q: "q = ''Image'' \<or> q = ''Curve''" for q
  proof -
    from t [where pre = "[]" and pathspecs = "[''Image'', ''Curve'']" and yg = "Some ?c"
        and post = "[([''Points''], None)]" and p = q,
        THEN conjunct2, THEN conjunct2, THEN conjunct2, THEN conjunct2, THEN conjunct2,
        THEN conjunct1, THEN mp, OF h6 [OF q]]
    obtain opts w od where go: "group_options False ?ev (Some ?c) = Inr (opts, w)"
      and o: "dict_get ?out (fst (apply_deprecations q)) = Some od"
      and only: "(\<forall>(qs, h)\<in>set ([] @ [([''Points''], None :: group option)]). q \<notin> set qs)
                   \<longrightarrow> wrap_options opts = Inr od"
      by blast
    from go h4 have "opts = ?opts" by simp
    with only q wo have "od = ?od" by auto
    with o q show ?thesis by (auto simp: apply_deprecations_names)
  qed
  have h6p: "OptsSpec_parse (\<lambda>l. [((), 0, 39)]) (\<lambda>l. Inr [?i, ?c, ?pt]) False ?ev ?line
              = Inr (?out, [])
        \<and> Inr [?i, ?c, ?pt] = (Inr [?i, ?c, ?pt] :: error + group list)
        \<and> group_paths_without_options [?i, ?c, ?pt]
            = [([''Image'', ''Curve''], Some ?c)] @ ([''Points''], None) # []
        \<and> ''Points'' \<in> set [''Points'']
        \<and> (\<forall>r\<in>pathspec ` set [?i, ?c, ?pt].
              fst (apply_deprecations r) = fst (apply_deprecations ''Points'')
                \<longrightarrow> r = ''Points'')"
    using parse gq by (auto simp: apply_deprecations_names)
  have trailing: "dict_get ?out ''Points'' = Some []"
  proof -
    from t [where pre = "[([''Image'', ''Curve''], Some ?c)]" and pathspecs = "[''Points'']"
        and yg = None and post = "[]" and p = "''Points''",
        THEN conjunct2, THEN conjunct2, THEN conjunct2, THEN conjunct2, THEN conjunct2,
        THEN conjunct1, THEN mp, OF h6p]
    obtain opts w od where go: "group_options False ?ev None = Inr (opts, w)"
      and o: "dict_get ?out (fst (apply_deprecations ''Points'')) = Some od"
      and only: "(\<forall>(qs, h)\<in>set ([([''Image'', ''Curve''], Some ?c)] @ []). ''Points'' \<notin> set qs)
                   \<longrightarrow> wrap_options opts = Inr od"
      by blast
    from go have "opts = []" by (simp add: group_options_None)
    with only have "od = []" by (simp add: wrap_options_Nil)
    with o show ?thesis by (simp add: apply_deprecations_names)
  qed
  from parse keys first [of "''Image''"] first [of "''Curve''"] trailing
  have 4: "\<exists>out. OptsSpec_parse (\<lambda>l. [((), 0, 39)]) (\<lambda>l. Inr [?i, ?c, ?pt]) False ?ev ?line
              = Inr (out, [])
          \<and> fst ` set out = {''Image'', ''Curve'', ''Points''}
          \<and> dict_get out ''Image'' = Some ?od
          \<and> dict_get out ''Curve'' = Some ?od
          \<and> dict_get out ''Points'' = Some []"
    by blast
  show ?thesis by (rule conjI [OF 1 conjI [OF 2 conjI [OF h4 4]]])
qed

end
